theory Spec2Isabelle
  imports Complex_Main "HOL-Library.Multiset" "HOL-Library.Char_ord" "HOL-Library.List_Lexorder"
    "HOL-Library.Log_Nat"
begin

section \<open>Identifier classification (utils.py, get_id_type)\<close>

text \<open>
  The three patterns of \<^verbatim>\<open>get_id_type\<close> all have the shape
  \<^verbatim>\<open>^ literal [class]{n,} $\<close> and are applied with \<^verbatim>\<open>re.match\<close>, which anchors at the
  start of the string. Python's \<^verbatim>\<open>$\<close> (without MULTILINE) matches at the end of the
  string and also just before a newline that ends the string. The character classes are
  ASCII ranges, so a character outside ASCII is never a member; strings are modelled as
  lists of \<^typ>\<open>char\<close>.
\<close>

definition in_range :: "char \<Rightarrow> char \<Rightarrow> char \<Rightarrow> bool" where
  "in_range lo hi c = ((of_char lo :: nat) \<le> of_char c \<and> (of_char c :: nat) \<le> of_char hi)"

text \<open>The class \<^verbatim>\<open>[a-zA-Z0-9]\<close>.\<close>

definition alnum_class :: "char \<Rightarrow> bool" where
  "alnum_class c =
     (in_range CHR ''a'' CHR ''z'' c \<or> in_range CHR ''A'' CHR ''Z'' c \<or> in_range CHR ''0'' CHR ''9'' c)"

text \<open>The class \<^verbatim>\<open>[-_a-zA-Z0-9]\<close>.\<close>

definition id_class :: "char \<Rightarrow> bool" where
  "id_class c = (c = CHR ''-'' \<or> c = CHR ''_'' \<or> alnum_class c)"

text \<open>Where \<^verbatim>\<open>$\<close> matches: at the end, or before a final newline.\<close>

definition dollar :: "string \<Rightarrow> bool" where
  "dollar rest = (rest = [] \<or> rest = [CHR 0x0A])"

text \<open>
  \<^verbatim>\<open>re.match("^" + lit + "[cls]{n,}$", s)\<close>: the literal, then the greedy run of class
  characters, which must have at least \<open>n\<close> members, then \<^verbatim>\<open>$\<close>. Backtracking into
  the run cannot help, since a shorter run is followed by a class character, where
  \<^verbatim>\<open>$\<close> does not match (the newline is in neither class).
\<close>

definition re_match :: "string \<Rightarrow> (char \<Rightarrow> bool) \<Rightarrow> nat \<Rightarrow> string \<Rightarrow> bool" where
  "re_match lit cls n s =
     (take (length lit) s = lit \<and>
      n \<le> length (takeWhile cls (drop (length lit) s)) \<and>
      dollar (dropWhile cls (drop (length lit) s)))"

definition playlist_re :: "string \<Rightarrow> bool" where
  "playlist_re s = re_match ''PL'' id_class 16 s"

definition channel_re :: "string \<Rightarrow> bool" where
  "channel_re s = re_match ''UC'' id_class 22 s"

definition user_re :: "string \<Rightarrow> bool" where
  "user_re s = re_match [] alnum_class 1 s"

text \<open>
  The argument of \<^verbatim>\<open>get_id_type\<close>: \<^verbatim>\<open>None\<close>, a \<^verbatim>\<open>str\<close>, a \<^verbatim>\<open>list\<close> of \<^verbatim>\<open>str\<close>,
  or a value of any other type, for which no branch is taken and the function falls off its
  end. The elements of a list are strings, as the identifiers handed to the function are;
  \<^verbatim>\<open>all\<close> stops at the first element that does not match. The result is the returned
  string, or \<open>None\<close> for Python's \<^verbatim>\<open>None\<close>.
\<close>

datatype id_arg = IdNone | IdStr string | IdList "string list" | IdOther

fun get_id_type :: "id_arg \<Rightarrow> string option" where
  "get_id_type IdNone = None"
| "get_id_type (IdStr s) =
     (if playlist_re s then Some ''playlist''
      else if channel_re s then Some ''channel''
      else if user_re s then Some ''user''
      else None)"
| "get_id_type (IdList xs) = (if list_all playlist_re xs then Some ''playlist'' else None)"
| "get_id_type IdOther = None"

section \<open>Exceptions\<close>

text \<open>
  The exceptions that the modelled code raises or lets through. A function that can raise
  returns \<open>error + 'a\<close>, with \<open>Inl\<close> for the exception. \<open>ValueError\<close> stands for
  an exception of exactly that class; \<open>JSONDecodeError\<close>, which \<^verbatim>\<open>req.json()\<close> raises
  for a body that is not JSON, is a subclass of \<^verbatim>\<open>ValueError\<close> in Python.
\<close>

datatype error =
    ValueError
  | TypeError
  | KeyError
  | IndexError
  | AttributeError
  | ZeroDivisionError
  | OverflowError
  | JSONDecodeError
  | FileNotFoundError
  | UnboundLocalError
  | OSError
  | SystemExit int
  | HTTPError
  | ConnectionError
  | Escaped
  | WrongShape

section \<open>The download phase (youtube_downloader.py)\<close>

subsection \<open>One video: download_video, download_thumbnail, download_subtitles\<close>

text \<open>
  The retrieval engine and the post-processing helpers are outside the repository. For
  each video id the environment says how the body of each \<^verbatim>\<open>try\<close> block ends: it
  runs to its end (\<open>Done\<close>), it raises one of the exceptions of the \<^verbatim>\<open>except\<close>
  clause (\<open>Caught\<close>), or it raises another exception, which leaves the function
  (\<open>Escapes\<close>).
\<close>

datatype step = Done | Caught | Escapes

record downloads =
  video_step :: "string \<Rightarrow> step"
  thumbnail_step :: "string \<Rightarrow> step"
  subtitles_step :: "string \<Rightarrow> step"

text \<open>
  What the two functions hand back to their caller: the \<^verbatim>\<open>except\<close> clause returns
  \<^verbatim>\<open>False\<close>; the \<^verbatim>\<open>try\<close> block has no \<^verbatim>\<open>return\<close>, so after it the function
  returns \<^verbatim>\<open>None\<close>.
\<close>

datatype py_ret = PyNone | PyFalse | PyTrue

fun truthy :: "py_ret \<Rightarrow> bool" where
  "truthy PyNone = False"
| "truthy PyFalse = False"
| "truthy PyTrue = True"

definition download_video :: "downloads \<Rightarrow> string \<Rightarrow> error + py_ret" where
  "download_video env video_id =
     (case video_step env video_id of
        Done \<Rightarrow> Inr PyNone
      | Caught \<Rightarrow> Inr PyFalse
      | Escapes \<Rightarrow> Inl Escaped)"

definition download_thumbnail :: "downloads \<Rightarrow> string \<Rightarrow> error + py_ret" where
  "download_thumbnail env video_id =
     (case thumbnail_step env video_id of
        Done \<Rightarrow> Inr PyNone
      | Caught \<Rightarrow> Inr PyFalse
      | Escapes \<Rightarrow> Inl Escaped)"

text \<open>
  \<^verbatim>\<open>download_subtitles\<close> catches \<^verbatim>\<open>Exception\<close> and has no \<^verbatim>\<open>return\<close>; only an
  exception outside \<^verbatim>\<open>Exception\<close> leaves it.
\<close>

definition download_subtitles :: "downloads \<Rightarrow> string \<Rightarrow> error + py_ret" where
  "download_subtitles env video_id =
     (case subtitles_step env video_id of
        Done \<Rightarrow> Inr PyNone
      | Caught \<Rightarrow> Inr PyNone
      | Escapes \<Rightarrow> Inl Escaped)"

subsection \<open>One batch: download_video_files_batch\<close>

text \<open>
  The loop over the batch, with the two lists it appends to. \<^verbatim>\<open>a and b\<close> evaluates
  \<open>b\<close> only when \<open>a\<close> is truthy.
\<close>

fun batch_loop ::
  "downloads \<Rightarrow> string list \<Rightarrow> string list \<Rightarrow> string list \<Rightarrow> error + (string list \<times> string list)"
where
  "batch_loop env [] succeeded failed = Inr (succeeded, failed)"
| "batch_loop env (video_id # rest) succeeded failed =
     (case download_video env video_id of
        Inl e \<Rightarrow> Inl e
      | Inr v \<Rightarrow>
          if truthy v then
            (case download_thumbnail env video_id of
               Inl e \<Rightarrow> Inl e
             | Inr t \<Rightarrow>
                 if truthy t then
                   (case download_subtitles env video_id of
                      Inl e \<Rightarrow> Inl e
                    | Inr _ \<Rightarrow> batch_loop env rest (succeeded @ [video_id]) failed)
                 else batch_loop env rest succeeded (failed @ [video_id]))
          else batch_loop env rest succeeded (failed @ [video_id]))"

definition download_video_files_batch ::
  "downloads \<Rightarrow> string list \<Rightarrow> error + (string list \<times> string list)" where
  "download_video_files_batch env videos_ids = batch_loop env videos_ids [] []"

subsection \<open>The batches of download_video_files\<close>

text \<open>
  \<^verbatim>\<open>get_slot\<close> yields \<open>0, 1, \<dots>, concurrency - 1, 0, \<dots>\<close>; its state is the number
  it yields next.
\<close>

definition next_slot :: "nat \<Rightarrow> nat \<Rightarrow> nat" where
  "next_slot concurrency n = (if concurrency \<le> n + 1 then 0 else n + 1)"

fun fill_batches :: "nat \<Rightarrow> string list \<Rightarrow> nat \<Rightarrow> string list list \<Rightarrow> string list list" where
  "fill_batches concurrency [] n batches = batches"
| "fill_batches concurrency (video_id # rest) n batches =
     fill_batches concurrency rest (next_slot concurrency n)
       (batches[n := batches ! n @ [video_id]])"

text \<open>
  The lists of ids that \<^verbatim>\<open>download_video_files\<close> hands to
  \<^verbatim>\<open>download_video_files_batch\<close>: the whole list in one call when the concurrency is at
  most one, else one list per slot. In the second case \<open>2 \<le> concurrency\<close>, so the slot
  \<open>n < concurrency\<close> is always inside \<open>batches\<close>.
\<close>

definition batches_of :: "string list \<Rightarrow> int \<Rightarrow> string list list" where
  "batches_of videos_ids max_concurrency =
     (let nb_videos = int (length videos_ids);
          concurrency = (if nb_videos < max_concurrency then nb_videos else max_concurrency)
      in if concurrency \<le> 1 then [videos_ids]
         else fill_batches (nat concurrency) videos_ids 0 (replicate (nat concurrency) []))"

subsection \<open>The failure threshold of run\<close>

text \<open>
  What \<^verbatim>\<open>run\<close> does with the two lists that \<^verbatim>\<open>download_video_files\<close> returns:
  it raises \<^verbatim>\<open>OSError\<close>, or goes on to the author enrichment with the succeeded ids.
\<close>

definition run_threshold :: "string list \<Rightarrow> string list \<Rightarrow> error + string list" where
  "run_threshold succeeded failed =
     (if failed \<noteq> [] then
        (if length succeeded \<le> length failed then Inl OSError else Inr succeeded)
      else Inr succeeded)"

subsection \<open>The size column of extract_videos_info\<close>

text \<open>
  \<^verbatim>\<open>float\<close> on a string, for plain decimal literals: an optional sign, digits, and an
  optional point followed by digits, with a digit on at least one side of the point. The
  value is the exact rational; the literals used below are exact in binary64 as well.
  The other spellings that \<^verbatim>\<open>float\<close> accepts (exponents, \<^verbatim>\<open>inf\<close>, \<^verbatim>\<open>nan\<close>,
  underscores, surrounding blanks) are outside this model, which answers
  \<^verbatim>\<open>ValueError\<close> for them as for every string that is no number; the empty string is
  one of those.
\<close>

definition is_digit :: "char \<Rightarrow> bool" where
  "is_digit c = in_range CHR ''0'' CHR ''9'' c"

definition digits_value :: "string \<Rightarrow> nat" where
  "digits_value ds = foldl (\<lambda>a c. 10 * a + (of_char c - 48)) 0 ds"

definition unsigned_float :: "string \<Rightarrow> error + rat" where
  "unsigned_float s =
     (let ip = takeWhile is_digit s; rest = dropWhile is_digit s
      in case rest of
           [] \<Rightarrow> if ip = [] then Inl ValueError else Inr (of_nat (digits_value ip))
         | c # fp \<Rightarrow>
             if c = CHR ''.'' \<and> list_all is_digit fp \<and> (ip \<noteq> [] \<or> fp \<noteq> [])
             then Inr (of_nat (digits_value ip) + of_nat (digits_value fp) / 10 ^ length fp)
             else Inl ValueError)"

fun py_float :: "string \<Rightarrow> error + rat" where
  "py_float [] = Inl ValueError"
| "py_float (c # r) =
     (if c = CHR ''-'' then map_sum id uminus (unsigned_float r)
      else if c = CHR ''+'' then unsigned_float r
      else unsigned_float (c # r))"

text \<open>
  The cell \<^verbatim>\<open>video["video_size"]\<close> is \<^verbatim>\<open>line[5] if line[5] else 0\<close>: the sixth field
  when it is not empty, else the integer \<^verbatim>\<open>0\<close>. The converted size is a float, or the
  integer \<^verbatim>\<open>0\<close>.
\<close>

datatype size_cell = CellStr string | CellInt int

datatype size_value = SizeFloat rat | SizeInt int

text \<open>The slices \<^verbatim>\<open>s[-1:]\<close> and \<^verbatim>\<open>s[:-2]\<close>.\<close>

definition last_char :: "string \<Rightarrow> string" where
  "last_char s = drop (length s - 1) s"

definition drop_last_two :: "string \<Rightarrow> string" where
  "drop_last_two s = take (length s - 2) s"

text \<open>
  The body of the loop that converts the sizes. Subscripting the integer \<^verbatim>\<open>0\<close> raises
  \<^verbatim>\<open>TypeError\<close>; \<^verbatim>\<open>sys.exit(1)\<close> raises \<^verbatim>\<open>SystemExit\<close>.
\<close>

fun convert_size :: "size_cell \<Rightarrow> error + size_value" where
  "convert_size (CellInt n) = Inl TypeError"
| "convert_size (CellStr s) =
     (if last_char s = ''K'' then
        map_sum id (\<lambda>f. SizeFloat (f * 1024)) (py_float (drop_last_two s))
      else if last_char s = ''M'' then
        map_sum id (\<lambda>f. SizeFloat (f * 1024 * 1024)) (py_float (drop_last_two s))
      else if last_char s = ''G'' then
        map_sum id (\<lambda>f. SizeFloat (f * 1024 * 1024 * 1024)) (py_float (drop_last_two s))
      else if s = ''0'' then Inr (SizeInt 0)
      else Inl (SystemExit 1))"

section \<open>The platform wrapper (platforms/youtube.py)\<close>

subsection \<open>Views per year in get_video_json\<close>

text \<open>
  \<^verbatim>\<open>views / years + 1\<close> is computed in binary64: the true division of two integers
  gives the float nearest to the exact quotient, and the sum with \<^verbatim>\<open>1\<close> is rounded
  again. A finite float is modelled by the rational number it stands for.

  \<open>pow2 i\<close> is the power of two with exponent \<open>i\<close>. For a positive \<open>x\<close>,
  \<open>binade x\<close> is the exponent \<open>e\<close> with \<open>pow2 e \<le> x < pow2 (e + 1)\<close>: one less than
  the number of binary digits of the integer part of \<open>x\<close> when \<open>1 \<le> x\<close>, and otherwise
  the negated number of binary digits of the integer just below \<open>1 / x\<close> rounded up.
  The floats around \<open>x\<close> are the multiples of \<open>ulp x\<close>: 52 binary places below the
  leading digit, and never finer than the subnormal spacing, two to the \<open>-1074\<close>.
\<close>

definition pow2 :: "int \<Rightarrow> rat" where
  "pow2 i = (if 0 \<le> i then 2 ^ nat i else 1 / 2 ^ nat (- i))"

definition binade :: "rat \<Rightarrow> int" where
  "binade x = (if 1 \<le> x then bitlen \<lfloor>x\<rfloor> - 1 else - bitlen (\<lceil>1 / x\<rceil> - 1))"

definition ulp :: "rat \<Rightarrow> rat" where
  "ulp x = pow2 (max (binade \<bar>x\<bar>) (- 1022) - 52)"

text \<open>Rounding to the nearest integer, a tie going to the even one.\<close>

definition round_half_even :: "rat \<Rightarrow> int" where
  "round_half_even x =
     (if x - of_int \<lfloor>x\<rfloor> < 1 / 2 then \<lfloor>x\<rfloor>
      else if 1 / 2 < x - of_int \<lfloor>x\<rfloor> then \<lfloor>x\<rfloor> + 1
      else if even \<lfloor>x\<rfloor> then \<lfloor>x\<rfloor> else \<lfloor>x\<rfloor> + 1)"

text \<open>
  The binary64 rounding of a rational, before the test for overflow: the nearest multiple
  of \<open>ulp x\<close>, a tie going to the even multiple.
\<close>

definition round64 :: "rat \<Rightarrow> rat" where
  "round64 x = (if x = 0 then 0 else of_int (round_half_even (x / ulp x)) * ulp x)"

text \<open>
  Python's true division of two integers: \<^verbatim>\<open>ZeroDivisionError\<close> for a zero divisor,
  \<^verbatim>\<open>OverflowError\<close> when the rounded quotient is beyond the largest float, the rounded
  quotient otherwise.
\<close>

definition true_div :: "int \<Rightarrow> int \<Rightarrow> error + rat" where
  "true_div a b =
     (if b = 0 then Inl ZeroDivisionError
      else if 2 ^ 1024 \<le> \<bar>round64 (of_int a / of_int b)\<bar> then Inl OverflowError
      else Inr (round64 (of_int a / of_int b)))"

text \<open>\<^verbatim>\<open>int\<close> of a float drops the fraction, towards zero.\<close>

definition py_int :: "rat \<Rightarrow> int" where
  "py_int q = (if 0 \<le> q then \<lfloor>q\<rfloor> else \<lceil>q\<rceil>)"

text \<open>
  The \<^verbatim>\<open>try\<close> statement that computes \<^verbatim>\<open>view_per_year\<close> from \<^verbatim>\<open>views\<close> and
  \<^verbatim>\<open>years\<close>. Only \<^verbatim>\<open>ZeroDivisionError\<close> is caught. Adding one to a finite float
  cannot overflow: the sum of the largest float and one is rounded back to that float.
\<close>

definition view_per_year :: "int \<Rightarrow> int \<Rightarrow> error + int" where
  "view_per_year views years =
     (case true_div views years of
        Inl ZeroDivisionError \<Rightarrow> Inr 0
      | Inl e \<Rightarrow> Inl e
      | Inr q \<Rightarrow> Inr (py_int (round64 (q + 1))))"

text \<open>\<^verbatim>\<open>years\<close> is the difference of the two calendar years.\<close>

definition years_since :: "int \<Rightarrow> int \<Rightarrow> int" where
  "years_since now_year published_year = now_year - published_year"

subsection \<open>subset_videos_json\<close>

text \<open>
  The fields of a video that the function reads. \<^verbatim>\<open>viewCount\<close> and \<^verbatim>\<open>publishedAt\<close>
  are strings in the platform's answer, and are compared as strings.
\<close>

record video =
  video_id :: string
  viewCount :: string
  publishedAt :: string
  viewPerYear :: int
  videoSize :: int

text \<open>
  \<^verbatim>\<open>sorted(xs, key=k, reverse=True)\<close>: descending in the key, and stable, so elements
  with equal keys keep their order.
\<close>

fun insert_desc :: "('a \<Rightarrow> 'k::linorder) \<Rightarrow> 'a \<Rightarrow> 'a list \<Rightarrow> 'a list" where
  "insert_desc k x [] = [x]"
| "insert_desc k x (y # ys) = (if k x < k y then y # insert_desc k x ys else x # y # ys)"

definition sorted_reverse :: "('a \<Rightarrow> 'k::linorder) \<Rightarrow> 'a list \<Rightarrow> 'a list" where
  "sorted_reverse k xs = foldr (insert_desc k) xs []"

text \<open>The slice \<^verbatim>\<open>xs[:n]\<close>; a negative \<open>n\<close> counts from the end.\<close>

definition slice_to :: "int \<Rightarrow> 'a list \<Rightarrow> 'a list" where
  "slice_to n xs = (if 0 \<le> n then take (nat n) xs else take (length xs - nat (- n)) xs)"

text \<open>
  The loop of the size budget. \<open>videos\<close> is the list the loop runs over, \<open>todo\<close> what
  is left of it. \<open>videos_ids\<close> is \<open>None\<close> as long as the local variable has not been
  assigned; reading it then raises \<^verbatim>\<open>UnboundLocalError\<close>. Both branches that assign it
  leave the loop at once, so inside the loop it still has the value it had before.
\<close>

fun budget_loop ::
  "video list \<Rightarrow> video list \<Rightarrow> int \<Rightarrow> int \<Rightarrow> string list \<Rightarrow> string list option \<Rightarrow> error + video list"
where
  "budget_loop videos [] subset_gb total_size videos_ids_subset videos_ids = Inr videos"
| "budget_loop videos (v # todo) subset_gb total_size videos_ids_subset videos_ids =
     (if total_size + videoSize v \<le> subset_gb then
        (case videos_ids of
           None \<Rightarrow> Inl UnboundLocalError
         | Some ids \<Rightarrow>
             if ids = [] then Inl IndexError
             else if video_id v = last ids then
               Inr (filter (\<lambda>w. video_id w \<in> set (videos_ids_subset @ [video_id v])) videos)
             else budget_loop videos todo subset_gb (total_size + videoSize v)
                    (videos_ids_subset @ [video_id v]) videos_ids)
      else Inr (filter (\<lambda>w. video_id w \<in> set videos_ids_subset) videos))"

definition order_by :: "string \<Rightarrow> video list \<Rightarrow> video list" where
  "order_by subset_by videos =
     (if subset_by = ''views'' then sorted_reverse viewCount videos
      else if subset_by = ''recent'' then sorted_reverse publishedAt videos
      else if subset_by = ''views-per-year'' then sorted_reverse viewPerYear videos
      else videos)"

definition subset_videos_json :: "video list \<Rightarrow> string \<Rightarrow> int \<Rightarrow> int \<Rightarrow> error + video list" where
  "subset_videos_json videos subset_by subset_videos subset_gb =
     (let ordered = order_by subset_by videos;
          videos_ids = (if subset_videos \<noteq> 0 then Some (map video_id ordered) else None);
          truncated =
            (if subset_videos \<noteq> 0
             then filter (\<lambda>v. video_id v \<in> set (slice_to subset_videos (map video_id ordered))) ordered
             else ordered)
      in if subset_gb \<noteq> 0 then
           budget_loop (sorted_reverse viewPerYear truncated) (sorted_reverse viewPerYear truncated)
             (subset_gb * 1024 * 1024 * 1024) 0 [] videos_ids
         else Inr truncated)"

subsection \<open>The JSON cache\<close>

text \<open>
  The cache directory holds one JSON document per key. The documents the modelled
  functions read and write have the shapes under which \<^verbatim>\<open>save_json\<close> wrote them: a
  channel, the list of a channel's playlists (one \<^verbatim>\<open>{kind, etag, id}\<close> object per
  playlist), one such object alone (what \<^verbatim>\<open>merge_playlists\<close> leaves in place of the
  list), the details of a playlist, and the list of a playlist's items. Of each object only
  the fields that the functions read or write are kept.
\<close>

record playlist_ref =
  ref_kind :: string
  ref_etag :: string
  ref_id :: string

record playlist_item =
  item_video_id :: string
  item_title :: string
  item_position :: int

record channel =
  channel_title :: string
  channel_uploads :: string

record playlist_detail =
  detail_id :: string
  detail_title :: string
  detail_description :: string
  detail_channel_id :: string
  detail_channel_title :: string

datatype doc =
    ChannelDoc channel
  | PlaylistsDoc "playlist_ref list"
  | RefDoc playlist_ref
  | DetailDoc playlist_detail
  | VideosDoc "playlist_item list"

text \<open>
  The cache maps a key to its document. \<^verbatim>\<open>load_json\<close> is the lookup: \<open>None\<close> for a
  key without a file. \<^verbatim>\<open>save_json\<close> is the update. \<^verbatim>\<open>os.remove\<close> raises
  \<^verbatim>\<open>FileNotFoundError\<close> for a key without a file.
\<close>

type_synonym cache = "string \<Rightarrow> doc option"

definition os_remove :: "cache \<Rightarrow> string \<Rightarrow> error + cache" where
  "os_remove cache key = (if cache key = None then Inl FileNotFoundError else Inr (cache(key := None)))"

definition videos_key :: "string \<Rightarrow> string" where
  "videos_key playlist_id = ''playlist_'' @ playlist_id @ ''_videos''"

definition detail_key :: "string \<Rightarrow> string" where
  "detail_key playlist_id = ''playlist_'' @ playlist_id"

definition playlists_key :: "string \<Rightarrow> string" where
  "playlists_key channel_id = ''channel_'' @ channel_id @ ''_playlists''"

definition channel_key :: "string \<Rightarrow> string" where
  "channel_key channel_id = ''channel_'' @ channel_id"

text \<open>Sequencing of steps that can raise.\<close>

fun bind :: "error + 'a \<Rightarrow> ('a \<Rightarrow> error + 'b) \<Rightarrow> error + 'b" where
  "bind (Inl e) f = Inl e"
| "bind (Inr x) f = f x"

subsection \<open>merge_playlists\<close>

text \<open>
  What was loaded for \<^verbatim>\<open>playlist_<id>_videos\<close>, where the code takes its \<^verbatim>\<open>len\<close> or
  appends it to \<^verbatim>\<open>items_merged\<close>: both raise \<^verbatim>\<open>TypeError\<close> on \<^verbatim>\<open>None\<close>. A document
  of another shape under such a key is outside the model (\<open>WrongShape\<close>).
\<close>

fun videos_of_doc :: "doc option \<Rightarrow> error + playlist_item list" where
  "videos_of_doc None = Inl TypeError"
| "videos_of_doc (Some (VideosDoc vs)) = Inr vs"
| "videos_of_doc (Some _) = Inl WrongShape"

text \<open>
  \<^verbatim>\<open>channel_playlists_json.remove(item)\<close> on what was loaded for the channel's playlists:
  \<^verbatim>\<open>None\<close> and the objects have no \<^verbatim>\<open>remove\<close>; a list raises \<^verbatim>\<open>ValueError\<close> when
  no element equals \<open>item\<close>, and a playlist item never equals it.
\<close>

fun remove_ref :: "doc option \<Rightarrow> playlist_ref \<Rightarrow> error + playlist_ref list" where
  "remove_ref (Some (PlaylistsDoc l)) item =
     (if item \<in> set l then Inr (remove1 item l) else Inl ValueError)"
| "remove_ref (Some (VideosDoc l)) item = Inl ValueError"
| "remove_ref _ item = Inl AttributeError"

text \<open>
  The statements shared by the two branches of the loop: append the playlist's items,
  delete its two files, take it out of the saved list of playlists.
\<close>

definition merge_one ::
  "string \<Rightarrow> playlist_ref \<Rightarrow> playlist_item list \<Rightarrow> playlist_item list \<times> cache
     \<Rightarrow> error + (playlist_item list \<times> cache)" where
  "merge_one channel_id item playlist_json st =
     bind (os_remove (snd st) (videos_key (ref_id item))) (\<lambda>c1.
     bind (os_remove c1 (detail_key (ref_id item))) (\<lambda>c2.
     bind (remove_ref (c2 (playlists_key channel_id)) item) (\<lambda>l.
       Inr (fst st @ playlist_json, c2(playlists_key channel_id \<mapsto> PlaylistsDoc l)))))"

text \<open>The body of the first loop, on the pair of \<^verbatim>\<open>items_merged\<close> and the cache.\<close>

definition merge_item ::
  "string \<Rightarrow> int \<Rightarrow> playlist_ref \<Rightarrow> playlist_item list \<times> cache
     \<Rightarrow> error + (playlist_item list \<times> cache)" where
  "merge_item channel_id optimize_number item st =
     (if 3 \<le> optimize_number then
        bind (videos_of_doc (snd st (videos_key (ref_id item)))) (\<lambda>playlist_json.
          if int (length playlist_json) < optimize_number
          then merge_one channel_id item playlist_json st
          else Inr st)
      else if optimize_number = 0 then
        bind (videos_of_doc (snd st (videos_key (ref_id item)))) (\<lambda>playlist_json.
          merge_one channel_id item playlist_json st)
      else Inr st)"

fun merge_loop ::
  "string \<Rightarrow> int \<Rightarrow> playlist_ref list \<Rightarrow> playlist_item list \<times> cache
     \<Rightarrow> error + (playlist_item list \<times> cache)" where
  "merge_loop channel_id optimize_number [] st = Inr st"
| "merge_loop channel_id optimize_number (item # rest) st =
     (case merge_item channel_id optimize_number item st of
        Inl e \<Rightarrow> Inl e
      | Inr st' \<Rightarrow> merge_loop channel_id optimize_number rest st')"

text \<open>
  \<^verbatim>\<open>channel_json["contentDetails"]\<close> on what was loaded for the channel: \<^verbatim>\<open>None\<close> and
  a list raise \<^verbatim>\<open>TypeError\<close>, an object without that field \<^verbatim>\<open>KeyError\<close>.
\<close>

fun channel_of_doc :: "doc option \<Rightarrow> error + channel" where
  "channel_of_doc (Some (ChannelDoc c)) = Inr c"
| "channel_of_doc (Some (RefDoc _)) = Inl KeyError"
| "channel_of_doc (Some (DetailDoc _)) = Inl KeyError"
| "channel_of_doc _ = Inl TypeError"

text \<open>
  The loop that takes the uploads playlist out of the saved list: the first element with
  that id is removed, if there is one. Iterating \<^verbatim>\<open>None\<close> raises \<^verbatim>\<open>TypeError\<close>;
  iterating an object yields its field names, and subscripting a name with \<^verbatim>\<open>"id"\<close>
  raises \<^verbatim>\<open>TypeError\<close>.
\<close>

fun remove_first_id :: "string \<Rightarrow> playlist_ref list \<Rightarrow> playlist_ref list" where
  "remove_first_id upload_id [] = []"
| "remove_first_id upload_id (item # l) =
     (if ref_id item = upload_id then l else item # remove_first_id upload_id l)"

fun without_upload :: "doc option \<Rightarrow> string \<Rightarrow> error + playlist_ref list" where
  "without_upload (Some (PlaylistsDoc l)) upload_id = Inr (remove_first_id upload_id l)"
| "without_upload (Some (VideosDoc l)) upload_id = Inl WrongShape"
| "without_upload _ upload_id = Inl TypeError"

text \<open>
  The uploads playlist, after the loop. The test is
  \<^verbatim>\<open>optimize_number == 0 or (optimize_number >= 3 and len(uploads_playlist_json) < optimize_number)\<close>,
  so for another \<open>optimize_number\<close> nothing is read.
\<close>

definition merge_uploads ::
  "string \<Rightarrow> int \<Rightarrow> string \<Rightarrow> playlist_item list \<times> cache
     \<Rightarrow> error + (playlist_item list \<times> cache)" where
  "merge_uploads channel_id optimize_number upload_id st =
     (if optimize_number = 0 \<or> 3 \<le> optimize_number then
        bind (videos_of_doc (snd st (videos_key upload_id))) (\<lambda>uploads_playlist_json.
          if optimize_number = 0 \<or> int (length uploads_playlist_json) < optimize_number then
            bind (os_remove (snd st) (videos_key upload_id)) (\<lambda>c1.
            bind (os_remove c1 (detail_key upload_id)) (\<lambda>c2.
            bind (without_upload (c2 (playlists_key channel_id)) upload_id) (\<lambda>l.
              Inr (fst st @ uploads_playlist_json,
                   c2(playlists_key channel_id \<mapsto> PlaylistsDoc l)))))
          else Inr st)
      else Inr st)"

text \<open>The loop that keeps the first item of each video id.\<close>

fun dedup_loop :: "playlist_item list \<Rightarrow> string list \<Rightarrow> playlist_item list \<Rightarrow> playlist_item list" where
  "dedup_loop [] videos_ids unique_videos_ids = unique_videos_ids"
| "dedup_loop (item # rest) videos_ids unique_videos_ids =
     (if item_video_id item \<notin> set videos_ids
      then dedup_loop rest (videos_ids @ [item_video_id item]) (unique_videos_ids @ [item])
      else dedup_loop rest videos_ids unique_videos_ids)"

text \<open>
  The loop that writes the positions. The items are objects loaded from different files or
  different elements of one loaded list, so no two entries of the list are the same
  object, and the writes do not interfere.
\<close>

definition renumber :: "playlist_item list \<Rightarrow> playlist_item list" where
  "renumber playlist_json =
     map (\<lambda>(i, item). item\<lparr>item_position := int i\<rparr>) (enumerate 0 playlist_json)"

definition custom_ref :: playlist_ref where
  "custom_ref = \<lparr>ref_kind = ''youtube#playlist'', ref_etag = ''custom'', ref_id = ''custom''\<rparr>"

definition custom_detail :: "string \<Rightarrow> int \<Rightarrow> channel \<Rightarrow> playlist_detail" where
  "custom_detail channel_id optimize_number channel_json =
     \<lparr>detail_id = ''custom'',
      detail_title = (if 3 \<le> optimize_number then ''Other Videos'' else ''All Videos''),
      detail_description = ''Custom playlist created by user'',
      detail_channel_id = channel_id,
      detail_channel_title = channel_title channel_json\<rparr>"

text \<open>
  \<^verbatim>\<open>merge_playlists\<close>, for \<open>items\<close> a list of playlists. It returns the object it
  saved in place of the channel's list, and the cache it leaves.
\<close>

definition merge_playlists ::
  "string \<Rightarrow> playlist_ref list \<Rightarrow> int \<Rightarrow> cache \<Rightarrow> error + (doc \<times> cache)" where
  "merge_playlists channel_id items optimize_number cache =
     bind (merge_loop channel_id optimize_number items ([], cache)) (\<lambda>st1.
     bind (channel_of_doc (snd st1 (channel_key channel_id))) (\<lambda>channel_json.
     bind (merge_uploads channel_id optimize_number (channel_uploads channel_json) st1) (\<lambda>st2.
       Inr (RefDoc custom_ref,
            (snd st2)
              (playlists_key channel_id \<mapsto> RefDoc custom_ref,
               ''playlist_custom'' \<mapsto> DetailDoc (custom_detail channel_id optimize_number channel_json),
               ''playlist_custom_videos'' \<mapsto> VideosDoc (renumber (dedup_loop (fst st2) [] [])))))))"

subsection \<open>get_channel_playlists_json\<close>

text \<open>
  The platform's answers to the successive page requests, in order: a failure status, for
  which \<^verbatim>\<open>raise_for_status\<close> raises; a body that is not JSON, for which
  \<^verbatim>\<open>req.json()\<close> raises; a JSON object without \<^verbatim>\<open>items\<close>, for which the subscript
  raises; or a page of playlists with its \<^verbatim>\<open>nextPageToken\<close>. When the answers run out
  the request fails to connect.
\<close>

datatype response = Failure | NotJson | NoItems | Page "playlist_ref list" "string option"

fun fetch_playlists ::
  "response list \<Rightarrow> string \<Rightarrow> playlist_ref list \<Rightarrow> cache \<Rightarrow> error + (doc \<times> cache)" where
  "fetch_playlists [] fname items cache = Inl ConnectionError"
| "fetch_playlists (Failure # answers) fname items cache = Inl HTTPError"
| "fetch_playlists (NotJson # answers) fname items cache = Inl JSONDecodeError"
| "fetch_playlists (NoItems # answers) fname items cache = Inl KeyError"
| "fetch_playlists (Page page_items page_token # answers) fname items cache =
     (if page_token = None \<or> page_token = Some []
      then Inr (PlaylistsDoc (items @ page_items), cache(fname \<mapsto> PlaylistsDoc (items @ page_items)))
      else fetch_playlists answers fname (items @ page_items)
             (cache(fname \<mapsto> PlaylistsDoc (items @ page_items))))"

text \<open>
  \<^verbatim>\<open>merge_playlists\<close> on a loaded document. Its loop starts with \<^verbatim>\<open>item["id"]\<close>;
  over an object the first \<open>item\<close> is a field name, and the subscript raises
  \<^verbatim>\<open>TypeError\<close>.
\<close>

fun merge_loaded :: "string \<Rightarrow> doc \<Rightarrow> int \<Rightarrow> cache \<Rightarrow> error + (doc \<times> cache)" where
  "merge_loaded channel_id (PlaylistsDoc items) optimize_number cache =
     merge_playlists channel_id items optimize_number cache"
| "merge_loaded channel_id (VideosDoc l) optimize_number cache = Inl WrongShape"
| "merge_loaded channel_id _ optimize_number cache = Inl TypeError"

definition get_channel_playlists_json ::
  "response list \<Rightarrow> string \<Rightarrow> int option \<Rightarrow> cache \<Rightarrow> error + (doc \<times> cache)" where
  "get_channel_playlists_json answers channel_id optimize_number cache =
     (case cache (playlists_key channel_id) of
        Some items \<Rightarrow>
          (case optimize_number of
             None \<Rightarrow> Inr (items, cache)
           | Some n \<Rightarrow>
               if 3 \<le> n then merge_loaded channel_id items n cache
               else if n = 0 then merge_loaded channel_id items 0 cache
               else if n = 1 \<or> n = 2 then Inl ValueError
               else Inr (items, cache))
      | None \<Rightarrow> fetch_playlists answers (playlists_key channel_id) [] cache)"

subsection \<open>Notions used to state what merge_playlists does\<close>

text \<open>
  The cached list of a playlist's items (empty when there is none), whether that list is
  shorter than the threshold, and whether there is such a list at all.
\<close>

definition cached_videos :: "cache \<Rightarrow> string \<Rightarrow> playlist_item list" where
  "cached_videos cache playlist_id =
     (case cache (videos_key playlist_id) of Some (VideosDoc vs) \<Rightarrow> vs | _ \<Rightarrow> [])"

definition small :: "cache \<Rightarrow> int \<Rightarrow> string \<Rightarrow> bool" where
  "small cache n playlist_id = (int (length (cached_videos cache playlist_id)) < n)"

definition has_videos :: "cache \<Rightarrow> string \<Rightarrow> bool" where
  "has_videos cache playlist_id =
     (case cache (videos_key playlist_id) of Some (VideosDoc vs) \<Rightarrow> True | _ \<Rightarrow> False)"

text \<open>The keys of the files that the first loop deletes, for the playlists \<open>ids\<close>.\<close>

definition gone :: "cache \<Rightarrow> int \<Rightarrow> string list \<Rightarrow> string set" where
  "gone cache n ids = (\<Union>a \<in> set (filter (small cache n) ids). {videos_key a, detail_key a})"

text \<open>
  De-duplication by video id in the words of the specification, to compare
  \<open>dedup_loop\<close> with: the first item stays, and the later items with its video id go.
\<close>

function first_by_id :: "playlist_item list \<Rightarrow> playlist_item list" where
  "first_by_id [] = []"
| "first_by_id (x # xs) =
     x # first_by_id (filter (\<lambda>y. item_video_id y \<noteq> item_video_id x) xs)"
  by pat_completeness auto
termination
  by (relation "measure length") (auto simp: less_Suc_eq_le)

subsection \<open>An example cache\<close>

text \<open>
  A channel with three playlists of 2, 5 and 10 items and an uploads playlist of 3 items,
  two of which are also in the first playlist.
\<close>

definition items_of :: "string list \<Rightarrow> playlist_item list" where
  "items_of vs =
     map (\<lambda>(i, v). \<lparr>item_video_id = v, item_title = v, item_position = int i\<rparr>) (enumerate 0 vs)"

definition example_refs :: "playlist_ref list" where
  "example_refs =
     [\<lparr>ref_kind = ''youtube#playlist'', ref_etag = ''ea'', ref_id = ''PLa''\<rparr>,
      \<lparr>ref_kind = ''youtube#playlist'', ref_etag = ''eb'', ref_id = ''PLb''\<rparr>,
      \<lparr>ref_kind = ''youtube#playlist'', ref_etag = ''ec'', ref_id = ''PLc''\<rparr>]"

definition example_detail :: "string \<Rightarrow> playlist_detail" where
  "example_detail playlist_id =
     \<lparr>detail_id = playlist_id, detail_title = playlist_id, detail_description = [],
      detail_channel_id = ''UCx'', detail_channel_title = ''X''\<rparr>"

definition example_cache :: cache where
  "example_cache = (\<lambda>k. None)
     (''channel_UCx'' \<mapsto> ChannelDoc \<lparr>channel_title = ''X'', channel_uploads = ''UUx''\<rparr>,
      ''channel_UCx_playlists'' \<mapsto> PlaylistsDoc example_refs,
      ''playlist_PLa'' \<mapsto> DetailDoc (example_detail ''PLa''),
      ''playlist_PLb'' \<mapsto> DetailDoc (example_detail ''PLb''),
      ''playlist_PLc'' \<mapsto> DetailDoc (example_detail ''PLc''),
      ''playlist_UUx'' \<mapsto> DetailDoc (example_detail ''UUx''),
      ''playlist_PLa_videos'' \<mapsto> VideosDoc (items_of [''v1'', ''v2'']),
      ''playlist_PLb_videos'' \<mapsto> VideosDoc (items_of [''v3'', ''v4'', ''v5'', ''v6'', ''v7'']),
      ''playlist_PLc_videos'' \<mapsto>
         VideosDoc (items_of [''w0'', ''w1'', ''w2'', ''w3'', ''w4'', ''w5'', ''w6'', ''w7'', ''w8'', ''w9'']),
      ''playlist_UUx_videos'' \<mapsto> VideosDoc (items_of [''v2'', ''v9'', ''v1'']))"

section \<open>Properties of the classification\<close>

text \<open>
  What a match of one of the three patterns means for the string: the literal, at least
  \<open>n\<close> characters of the class, and nothing else but, possibly, one final newline.
\<close>

lemma takeWhile_all_rest:
  "list_all cls body \<Longrightarrow> (rest = [] \<or> \<not> cls (hd rest)) \<Longrightarrow>
     takeWhile cls (body @ rest) = body \<and> dropWhile cls (body @ rest) = rest"
  by (induction body) (auto simp: takeWhile_eq_Nil_iff dropWhile_eq_self_iff)

lemma re_match_iff:
  assumes nl: "\<not> cls (CHR 0x0A)"
  shows "re_match lit cls n s \<longleftrightarrow>
     (\<exists>body. n \<le> length body \<and> list_all cls body \<and>
        (s = lit @ body \<or> s = lit @ body @ [CHR 0x0A]))"
proof
  assume m: "re_match lit cls n s"
  let ?r = "drop (length lit) s"
  let ?b = "takeWhile cls ?r"
  from m have p: "take (length lit) s = lit" and l: "n \<le> length ?b"
    and d: "dollar (dropWhile cls ?r)"
    by (simp_all add: re_match_def)
  have "s = take (length lit) s @ ?b @ dropWhile cls ?r" by simp
  with p have s: "s = lit @ ?b @ dropWhile cls ?r" by simp
  have a: "list_all cls ?b" by (simp add: list_all_iff) (meson set_takeWhileD)
  from d s have "s = lit @ ?b \<or> s = lit @ ?b @ [CHR 0x0A]"
    unfolding dollar_def by (metis append_Nil2)
  with l a show "\<exists>body. n \<le> length body \<and> list_all cls body \<and>
      (s = lit @ body \<or> s = lit @ body @ [CHR 0x0A])"
    by blast
next
  assume "\<exists>body. n \<le> length body \<and> list_all cls body \<and>
      (s = lit @ body \<or> s = lit @ body @ [CHR 0x0A])"
  then obtain body rest where l: "n \<le> length body" and a: "list_all cls body"
    and s: "s = lit @ body @ rest" and t: "rest = [] \<or> rest = [CHR 0x0A]"
    by auto
  from t nl have "rest = [] \<or> \<not> cls (hd rest)" by auto
  from takeWhile_all_rest [OF a this] s l t show "re_match lit cls n s"
    by (auto simp: re_match_def dollar_def)
qed

lemma id_class_newline: "\<not> id_class (CHR 0x0A)"
  by (simp add: id_class_def alnum_class_def in_range_def)

lemma alnum_class_newline: "\<not> alnum_class (CHR 0x0A)"
  by (simp add: alnum_class_def in_range_def)

lemma playlist_re_iff:
  "playlist_re s \<longleftrightarrow>
     (\<exists>body. 16 \<le> length body \<and> list_all id_class body \<and>
        (s = ''PL'' @ body \<or> s = ''PL'' @ body @ [CHR 0x0A]))"
  unfolding playlist_re_def using id_class_newline by (rule re_match_iff [where cls = id_class])

lemma channel_re_iff:
  "channel_re s \<longleftrightarrow>
     (\<exists>body. 22 \<le> length body \<and> list_all id_class body \<and>
        (s = ''UC'' @ body \<or> s = ''UC'' @ body @ [CHR 0x0A]))"
  unfolding channel_re_def using id_class_newline by (rule re_match_iff [where cls = id_class])

lemma user_re_iff:
  "user_re s \<longleftrightarrow>
     (\<exists>body. 1 \<le> length body \<and> list_all alnum_class body \<and>
        (s = body \<or> s = body @ [CHR 0x0A]))"
  unfolding user_re_def
  using re_match_iff [where cls = alnum_class and lit = "[]" and n = 1 and s = s]
    alnum_class_newline
  by simp

lemmas pattern_defs = playlist_re_def channel_re_def user_re_def re_match_def dollar_def
  id_class_def alnum_class_def in_range_def

text \<open>
  C8: the classification returns a value for every argument, and applies its rules in
  order. \<^verbatim>\<open>None\<close> gives \<^verbatim>\<open>None\<close>. A string that matches the playlist pattern gives
  \<^verbatim>\<open>"playlist"\<close>; otherwise one that matches the channel pattern gives \<^verbatim>\<open>"channel"\<close>;
  otherwise one that matches the user pattern gives \<^verbatim>\<open>"user"\<close>; every other string
  gives \<^verbatim>\<open>None\<close>. A list gives \<^verbatim>\<open>"playlist"\<close> when each of its elements matches the
  playlist pattern, and \<^verbatim>\<open>None\<close> otherwise.
\<close>

theorem get_id_type_rules:
  "get_id_type IdNone = None
   \<and> (\<forall>s. playlist_re s \<longrightarrow> get_id_type (IdStr s) = Some ''playlist'')
   \<and> (\<forall>s. \<not> playlist_re s \<and> channel_re s \<longrightarrow> get_id_type (IdStr s) = Some ''channel'')
   \<and> (\<forall>s. \<not> playlist_re s \<and> \<not> channel_re s \<and> user_re s \<longrightarrow>
          get_id_type (IdStr s) = Some ''user'')
   \<and> (\<forall>s. \<not> playlist_re s \<and> \<not> channel_re s \<and> \<not> user_re s \<longrightarrow>
          get_id_type (IdStr s) = None)
   \<and> (\<forall>xs. get_id_type (IdList xs) =
          (if \<forall>x \<in> set xs. playlist_re x then Some ''playlist'' else None))"
  by (simp add: list_all_iff)

text \<open>
  The rules at work: a playlist id that is alphanumeric as well (the first rule wins), a
  channel id, a user name, a string with a symbol, and two lists.
\<close>

theorem get_id_type_rules_witness:
  "get_id_type (IdStr ''PL0123456789abcdef'') = Some ''playlist''
   \<and> user_re ''PL0123456789abcdef''
   \<and> get_id_type (IdStr ''UC0123456789abcdef-_AZaz'') = Some ''channel''
   \<and> get_id_type (IdStr ''PL0123456789abcde'') = Some ''user''
   \<and> get_id_type (IdStr ''PL-123'') = None
   \<and> get_id_type (IdList [''PL0123456789abcdef'', ''PL_-_-_-_-_-_-_-_-'']) = Some ''playlist''
   \<and> get_id_type (IdList [''PL0123456789abcdef'', ''someuser'']) = None"
proof -
  have p: "playlist_re ''PL0123456789abcdef''" by (simp add: pattern_defs)
  have c: "\<not> playlist_re ''UC0123456789abcdef-_AZaz'' \<and> channel_re ''UC0123456789abcdef-_AZaz''"
    by (simp add: pattern_defs)
  have u: "\<not> playlist_re ''PL0123456789abcde'' \<and> \<not> channel_re ''PL0123456789abcde''
      \<and> user_re ''PL0123456789abcde''"
    by (simp add: pattern_defs)
  have n: "\<not> playlist_re ''PL-123'' \<and> \<not> channel_re ''PL-123'' \<and> \<not> user_re ''PL-123''"
    by (simp add: pattern_defs)
  have l1: "\<forall>x \<in> set [''PL0123456789abcdef'', ''PL_-_-_-_-_-_-_-_-'']. playlist_re x"
    by (simp add: pattern_defs)
  have l2: "\<not> (\<forall>x \<in> set [''PL0123456789abcdef'', ''someuser'']. playlist_re x)"
    by (simp add: pattern_defs)
  have u2: "user_re ''PL0123456789abcdef''" by (simp add: pattern_defs)
  from get_id_type_rules p c u n l1 l2 u2 show ?thesis by presburger
qed

text \<open>
  C9: the classification of the empty list is \<^verbatim>\<open>"playlist"\<close>, since \<^verbatim>\<open>all\<close> of no
  elements is true.
\<close>

theorem get_id_type_empty_list: "get_id_type (IdList []) = Some ''playlist''"
  by simp

section \<open>Properties of the download phase\<close>

text \<open>
  Neither outcome of \<^verbatim>\<open>download_video\<close> is truthy, so the thumbnail step is never
  started and every id of a batch that runs to its end is appended to \<open>failed\<close>.
\<close>

lemma batch_loop_all_failed:
  "list_all (\<lambda>v. video_step env v \<noteq> Escapes) ids \<Longrightarrow>
     batch_loop env ids succeeded failed = Inr (succeeded, failed @ ids)"
proof (induction ids arbitrary: failed)
  case Nil
  then show ?case by simp
next
  case (Cons v ids)
  then have "download_video env v = Inr PyNone \<or> download_video env v = Inr PyFalse"
    by (cases "video_step env v") (simp_all add: download_video_def)
  with Cons show ?case by auto
qed

lemma download_video_files_batch_all_failed:
  "list_all (\<lambda>v. video_step env v \<noteq> Escapes) ids \<Longrightarrow>
     download_video_files_batch env ids = Inr ([], ids)"
  by (simp add: download_video_files_batch_def batch_loop_all_failed)

text \<open>
  C1: after a batch, every processed id is in exactly one of the two lists, and it is in
  \<open>succeeded\<close> exactly when its video step and its thumbnail step both succeed. The code
  does not do this: for a video whose download, transcoding, thumbnail and subtitles all
  succeed, the batch returns it in \<open>failed\<close> and leaves \<open>succeeded\<close> empty.
\<close>

theorem batch_records_completed_video_as_failed:
  "download_video_files_batch
     \<lparr>video_step = (\<lambda>_. Done), thumbnail_step = (\<lambda>_. Done), subtitles_step = (\<lambda>_. Done)\<rparr>
     [''dQw4w9WgXcQ''] = Inr ([], [''dQw4w9WgXcQ''])"
  by (simp add: download_video_files_batch_def download_video_def)

text \<open>
  C2: when at least one id failed and the failed ids are at least as many as the succeeded
  ones, the run stops with the fatal error; when the failed ids are fewer than the
  succeeded ones, or there is none, the run goes on past the download phase.
\<close>

theorem run_threshold_rule:
  "(failed \<noteq> [] \<and> length succeeded \<le> length failed \<longrightarrow>
      run_threshold succeeded failed = Inl OSError)
   \<and> (length failed < length succeeded \<or> failed = [] \<longrightarrow>
      run_threshold succeeded failed = Inr succeeded)"
  by (auto simp: run_threshold_def)

text \<open>Ten ids: five and five stops the run, six and four does not; nor do no ids at all.\<close>

theorem run_threshold_rule_witness:
  "run_threshold [''v0'', ''v1'', ''v2'', ''v3'', ''v4''] [''v5'', ''v6'', ''v7'', ''v8'', ''v9'']
     = Inl OSError
   \<and> run_threshold [''v0'', ''v1'', ''v2'', ''v3'', ''v4'', ''v5''] [''v6'', ''v7'', ''v8'', ''v9'']
     = Inr [''v0'', ''v1'', ''v2'', ''v3'', ''v4'', ''v5'']
   \<and> run_threshold [] [] = Inr []"
  using
    run_threshold_rule [of "[''v5'', ''v6'', ''v7'', ''v8'', ''v9'']"
      "[''v0'', ''v1'', ''v2'', ''v3'', ''v4'']"]
    run_threshold_rule [of "[''v6'', ''v7'', ''v8'', ''v9'']"
      "[''v0'', ''v1'', ''v2'', ''v3'', ''v4'', ''v5'']"]
    run_threshold_rule [of "[]" "[]"]
  by simp

lemmas size_defs = last_char_def drop_last_two_def unsigned_float_def is_digit_def
  in_range_def digits_value_def

text \<open>
  C4: a final \<^verbatim>\<open>K\<close>, \<^verbatim>\<open>M\<close> or \<^verbatim>\<open>G\<close> multiplies the number before it by 1024, by the
  square of 1024 or by its cube, so that \<^verbatim>\<open>"10K"\<close> is 10240 bytes, \<^verbatim>\<open>"2M"\<close> 2097152 and \<^verbatim>\<open>"1G"\<close>
  1073741824. The code does not do this: it tests the last character and then cuts two
  characters off, so \<^verbatim>\<open>"10K"\<close> becomes 1024 bytes, and for \<^verbatim>\<open>"2M"\<close> and \<^verbatim>\<open>"1G"\<close>
  the conversion of the empty string raises \<^verbatim>\<open>ValueError\<close>.
\<close>

theorem convert_size_drops_two_characters:
  "convert_size (CellStr ''10K'') = Inr (SizeFloat 1024)
   \<and> convert_size (CellStr ''2M'') = Inl ValueError
   \<and> convert_size (CellStr ''1G'') = Inl ValueError"
  by (simp add: size_defs)

text \<open>The two parts of the claim that the code does meet.\<close>

lemma convert_size_zero_and_unknown:
  "convert_size (CellStr ''0'') = Inr (SizeInt 0)
   \<and> convert_size (CellStr ''5T'') = Inl (SystemExit 1)"
  by (simp add: size_defs)

text \<open>
  The slots come round: the slot after \<open>n\<close> is \<open>n + 1\<close> modulo the concurrency. So the
  batch \<open>k\<close> receives the entries at the positions \<open>i\<close> with \<open>(n + i) mod c = k\<close>, in
  order, where \<open>n\<close> is the slot the loop starts at.
\<close>

lemma next_slot_mod: "n < c \<Longrightarrow> next_slot c n = Suc n mod c"
proof (cases "c \<le> n + 1")
  case True
  assume "n < c"
  with True have "Suc n = c" by simp
  then have "Suc n mod c = 0" by simp
  with True show ?thesis by (simp add: next_slot_def)
next
  case False
  then show ?thesis by (simp add: next_slot_def)
qed

lemma length_fill_batches: "length (fill_batches c xs n bs) = length bs"
  by (induction xs arbitrary: n bs) auto

lemma upt_filter_shift:
  "filter P [0..<Suc m] = (if P 0 then [0] else []) @ map Suc (filter (\<lambda>i. P (Suc i)) [0..<m])"
proof -
  have "[0..<Suc m] = 0 # map Suc [0..<m]"
    by (simp add: upt_conv_Cons map_Suc_upt del: upt_Suc)
  then show ?thesis by (simp add: filter_map comp_def del: upt_Suc)
qed

lemma fill_batches_nth:
  assumes "n < c" "length bs = c" "k < c"
  shows "fill_batches c xs n bs ! k =
           bs ! k @ map ((!) xs) (filter (\<lambda>i. (n + i) mod c = k) [0..<length xs])"
  using assms
proof (induction xs arbitrary: n bs)
  case Nil
  then show ?case by simp
next
  case (Cons x rest)
  have s: "next_slot c n < c" using Cons.prems(1) by (simp add: next_slot_mod)
  have m: "\<And>i. (next_slot c n + i) mod c = (n + Suc i) mod c"
    using Cons.prems(1) by (simp add: next_slot_mod mod_add_left_eq mod_Suc_eq)
  have "fill_batches c (x # rest) n bs ! k =
          (bs[n := bs ! n @ [x]]) ! k @
          map ((!) rest) (filter (\<lambda>i. (n + Suc i) mod c = k) [0..<length rest])"
    using Cons.IH [OF s, of "bs[n := bs ! n @ [x]]"] Cons.prems by (simp add: m)
  also have "\<dots> = bs ! k @
      map ((!) (x # rest)) (filter (\<lambda>i. (n + i) mod c = k) [0..<length (x # rest)])"
    using Cons.prems by (simp add: upt_filter_shift nth_list_update comp_def del: upt_Suc)
  finally show ?case .
qed

lemma mset_concat_update:
  "n < length bs \<Longrightarrow> mset (concat (bs[n := bs ! n @ [x]])) = add_mset x (mset (concat bs))"
proof (induction bs arbitrary: n)
  case Nil
  then show ?case by simp
next
  case (Cons b bs)
  then show ?case by (cases n) auto
qed

lemma mset_fill_batches:
  "n < c \<Longrightarrow> length bs = c \<Longrightarrow>
     mset (concat (fill_batches c xs n bs)) = mset (concat bs) + mset xs"
proof (induction xs arbitrary: n bs)
  case Nil
  then show ?case by simp
next
  case (Cons x rest)
  have s: "next_slot c n < c" using Cons.prems(1) by (simp add: next_slot_mod)
  show ?case using Cons.IH [OF s, of "bs[n := bs ! n @ [x]]"] Cons.prems
    by (simp add: mset_concat_update)
qed

text \<open>With no id repeated, the position of an id decides its one batch.\<close>

lemma round_robin_unique:
  assumes nth: "\<forall>k < c. bs ! k = map ((!) ids) (filter (\<lambda>i. i mod c = k) [0..<length ids])"
    and c: "0 < c" and d: "distinct ids" and x: "x \<in> set ids"
  shows "\<exists>!k. k < c \<and> x \<in> set (bs ! k)"
proof -
  from x obtain j where j: "j < length ids" "ids ! j = x"
    by (auto simp: in_set_conv_nth)
  have mem: "x \<in> set (bs ! k) \<longleftrightarrow> j mod c = k" if "k < c" for k
  proof -
    from that nth have "x \<in> set (bs ! k) \<longleftrightarrow> (\<exists>i < length ids. i mod c = k \<and> ids ! i = x)"
      by auto
    also have "\<dots> \<longleftrightarrow> j mod c = k"
      using j d by (auto simp: nth_eq_iff_index_eq)
    finally show ?thesis .
  qed
  have "j mod c < c" using c by simp
  with mem show ?thesis by (intro ex1I [of _ "j mod c"]) auto
qed

lemma batches_of_shape:
  assumes "videos_ids \<noteq> []" and "2 \<le> max_concurrency"
  shows "length (batches_of videos_ids max_concurrency)
           = min (length videos_ids) (nat max_concurrency)
    \<and> (\<forall>k < length (batches_of videos_ids max_concurrency).
          batches_of videos_ids max_concurrency ! k =
            map ((!) videos_ids)
              (filter (\<lambda>i. i mod length (batches_of videos_ids max_concurrency) = k)
                 [0..<length videos_ids]))
    \<and> mset (concat (batches_of videos_ids max_concurrency)) = mset videos_ids"
proof -
  let ?c = "if int (length videos_ids) < max_concurrency
            then int (length videos_ids) else max_concurrency"
  show ?thesis
  proof (cases "?c \<le> 1")
    case True
    with assms have one: "length videos_ids = 1"
      by (cases videos_ids) (auto split: if_splits)
    with True assms have b: "batches_of videos_ids max_concurrency = [videos_ids]"
      by (simp add: batches_of_def Let_def)
    from one obtain x where x: "videos_ids = [x]" by (cases videos_ids) auto
    from b x have b': "batches_of [x] max_concurrency = [[x]]" by simp
    show ?thesis using assms unfolding x by (simp add: b')
  next
    case False
    define c where "c = nat ?c"
    from False have c2: "2 \<le> c" by (simp add: c_def)
    have cmin: "c = min (length videos_ids) (nat max_concurrency)"
      using assms by (auto simp: c_def min_def)
    from False have b: "batches_of videos_ids max_concurrency =
        fill_batches c videos_ids 0 (replicate c [])"
      by (simp add: batches_of_def Let_def c_def)
    have len: "length (batches_of videos_ids max_concurrency) = c"
      by (simp add: b length_fill_batches)
    have nth: "\<forall>k < c. batches_of videos_ids max_concurrency ! k =
        map ((!) videos_ids) (filter (\<lambda>i. i mod c = k) [0..<length videos_ids])"
      using c2 by (simp add: b fill_batches_nth)
    have ms: "mset (concat (batches_of videos_ids max_concurrency)) = mset videos_ids"
      using c2 by (simp add: b mset_fill_batches)
    from len nth ms cmin show ?thesis by simp
  qed
qed

lemma batches_of_seven_three:
  assumes "length videos_ids = 7"
  shows "map length (batches_of videos_ids 3) = [3, 2, 2]"
proof -
  from assms obtain a1 a2 a3 a4 a5 a6 a7 where "videos_ids = [a1, a2, a3, a4, a5, a6, a7]"
    by (auto simp: length_Suc_conv eval_nat_numeral)
  then show ?thesis by (simp add: batches_of_def next_slot_def eval_nat_numeral)
qed

text \<open>
  C7 as stated: every video id appears in exactly one batch, for every list of ids. It
  does not when an id is repeated in the list, as the rows of a file can repeat it: of two
  entries with the same id and a maximal concurrency of two, one goes to each batch.
\<close>

theorem batches_of_repeated_id_counterexample:
  "batches_of [''a'', ''a''] 2 = [[''a''], [''a'']]
   \<and> ''a'' \<in> set (batches_of [''a'', ''a''] 2 ! 0)
   \<and> ''a'' \<in> set (batches_of [''a'', ''a''] 2 ! 1)"
  by (simp add: batches_of_def next_slot_def eval_nat_numeral)

text \<open>
  C7, amended: for a list of ids that is not empty and a maximal concurrency of at least
  two, the ids are dealt round-robin into exactly min(number of ids, maximal concurrency)
  batches: the batch \<open>k\<close> holds, in order, the entries at the positions \<open>i\<close> with
  \<open>i mod number of batches = k\<close>. Every entry of the list is thereby in exactly one batch
  (the batches together hold each id as often as the list does), and when no id is
  repeated in the list every id is in exactly one batch. Seven ids with a maximal
  concurrency of three give batches of sizes 3, 2 and 2.
\<close>

theorem batches_of_round_robin:
  assumes "videos_ids \<noteq> []" and "2 \<le> max_concurrency"
  shows "length (batches_of videos_ids max_concurrency)
           = min (length videos_ids) (nat max_concurrency)
    \<and> (\<forall>k < length (batches_of videos_ids max_concurrency).
          batches_of videos_ids max_concurrency ! k =
            map ((!) videos_ids)
              (filter (\<lambda>i. i mod length (batches_of videos_ids max_concurrency) = k)
                 [0..<length videos_ids]))
    \<and> mset (concat (batches_of videos_ids max_concurrency)) = mset videos_ids
    \<and> (distinct videos_ids \<longrightarrow>
         (\<forall>x \<in> set videos_ids.
            \<exists>!k. k < length (batches_of videos_ids max_concurrency)
                 \<and> x \<in> set (batches_of videos_ids max_concurrency ! k)))
    \<and> (length videos_ids = 7 \<and> max_concurrency = 3 \<longrightarrow>
         map length (batches_of videos_ids max_concurrency) = [3, 2, 2])"
proof -
  note shape = batches_of_shape [OF assms]
  let ?bs = "batches_of videos_ids max_concurrency"
  from shape assms have pos: "0 < length ?bs" by (cases videos_ids) auto
  have "\<exists>!k. k < length ?bs \<and> x \<in> set (?bs ! k)"
    if "distinct videos_ids" "x \<in> set videos_ids" for x
    using round_robin_unique [of "length ?bs" ?bs videos_ids x] shape pos that by blast
  moreover have "map length ?bs = [3, 2, 2]" if "length videos_ids = 7 \<and> max_concurrency = 3"
    using that batches_of_seven_three [of videos_ids] by simp
  ultimately show ?thesis using shape by blast
qed

text \<open>Seven ids and a maximal concurrency of three.\<close>

theorem batches_of_round_robin_witness:
  "batches_of [''a'', ''b'', ''c'', ''d'', ''e'', ''f'', ''g''] 3
     = [[''a'', ''d'', ''g''], [''b'', ''e''], [''c'', ''f'']]
   \<and> length (batches_of [''a'', ''b'', ''c'', ''d'', ''e'', ''f'', ''g''] 3) = min (length [''a'', ''b'', ''c'', ''d'', ''e'', ''f'', ''g'']) (nat 3)
   \<and> mset (concat (batches_of [''a'', ''b'', ''c'', ''d'', ''e'', ''f'', ''g''] 3)) = mset [''a'', ''b'', ''c'', ''d'', ''e'', ''f'', ''g'']
   \<and> (\<exists>!k. k < length (batches_of [''a'', ''b'', ''c'', ''d'', ''e'', ''f'', ''g''] 3) \<and> ''d'' \<in> set (batches_of [''a'', ''b'', ''c'', ''d'', ''e'', ''f'', ''g''] 3 ! k))
   \<and> map length (batches_of [''a'', ''b'', ''c'', ''d'', ''e'', ''f'', ''g''] 3) = [3, 2, 2]"
proof -
  have e: "batches_of [''a'', ''b'', ''c'', ''d'', ''e'', ''f'', ''g''] 3
     = [[''a'', ''d'', ''g''], [''b'', ''e''], [''c'', ''f'']]"
    by (simp add: batches_of_def next_slot_def eval_nat_numeral)
  have h1: "[''a'', ''b'', ''c'', ''d'', ''e'', ''f'', ''g''] \<noteq> []" by simp
  have h2: "(2::int) \<le> 3" by simp
  have h3: "length [''a'', ''b'', ''c'', ''d'', ''e'', ''f'', ''g''] = 7 \<and> (3::int) = 3" by simp
  have h4: "distinct [''a'', ''b'', ''c'', ''d'', ''e'', ''f'', ''g'']" by simp
  have h5: "''d'' \<in> set [''a'', ''b'', ''c'', ''d'', ''e'', ''f'', ''g'']" by simp
  note t = batches_of_round_robin [OF h1 h2]
  from t have a: "length (batches_of [''a'', ''b'', ''c'', ''d'', ''e'', ''f'', ''g''] 3) = min (length [''a'', ''b'', ''c'', ''d'', ''e'', ''f'', ''g'']) (nat 3)" by (rule conjunct1)
  from t have b: "mset (concat (batches_of [''a'', ''b'', ''c'', ''d'', ''e'', ''f'', ''g''] 3)) = mset [''a'', ''b'', ''c'', ''d'', ''e'', ''f'', ''g'']" by blast
  from t h3 have c: "map length (batches_of [''a'', ''b'', ''c'', ''d'', ''e'', ''f'', ''g''] 3) = [3, 2, 2]" by blast
  from t h4 h5 have d: "\<exists>!k. k < length (batches_of [''a'', ''b'', ''c'', ''d'', ''e'', ''f'', ''g''] 3) \<and> ''d'' \<in> set (batches_of [''a'', ''b'', ''c'', ''d'', ''e'', ''f'', ''g''] 3 ! k)"
    by blast
  from a b c d e show ?thesis by blast
qed

section \<open>Properties of the platform wrapper\<close>

text \<open>
  The exponent that \<open>binade\<close> computes is the one of the binade of its argument.
\<close>

lemma binade_bounds:
  assumes "0 < x"
  shows "pow2 (binade x) \<le> x \<and> x < pow2 (binade x + 1)"
proof (cases "1 \<le> x")
  case True
  let ?m = "\<lfloor>x\<rfloor>"
  from True have m: "0 < ?m" by simp
  from bitlen_bounds [OF m] have lo: "2 ^ nat (bitlen ?m - 1) \<le> ?m" and hi: "?m < 2 ^ nat (bitlen ?m)"
    by simp_all
  from m have "bitlen ?m \<noteq> 0" by (simp add: bitlen_eq_zero_iff)
  with bitlen_nonneg [of ?m] have b1: "1 \<le> bitlen ?m" by linarith
  have "(of_int (2 ^ nat (bitlen ?m - 1)) :: rat) \<le> of_int ?m" using lo by (simp only: of_int_le_iff)
  also have "\<dots> \<le> x" by (rule of_int_floor_le)
  finally have 1: "pow2 (binade x) \<le> x" using True b1 by (simp add: binade_def pow2_def)
  from hi have "?m + 1 \<le> 2 ^ nat (bitlen ?m)" by simp
  then have "(of_int (?m + 1) :: rat) \<le> of_int (2 ^ nat (bitlen ?m))" by (simp only: of_int_le_iff)
  moreover have "x < of_int (?m + 1)" by linarith
  ultimately have "x < of_int (2 ^ nat (bitlen ?m))" by linarith
  then have 2: "x < pow2 (binade x + 1)" using True b1 by (simp add: binade_def pow2_def)
  from 1 2 show ?thesis by (rule conjI)
next
  case False
  let ?c = "\<lceil>1 / x\<rceil>"
  let ?b = "bitlen (?c - 1)"
  from False assms have inv: "1 < 1 / x" by simp
  then have c: "0 < ?c - 1" by (simp add: less_ceiling_iff)
  from bitlen_bounds [OF c] have lo: "2 ^ nat (?b - 1) \<le> ?c - 1" and hi: "?c - 1 < 2 ^ nat ?b"
    by simp_all
  from c have "?b \<noteq> 0" by (simp add: bitlen_eq_zero_iff)
  with bitlen_nonneg [of "?c - 1"] have b1: "1 \<le> ?b" by linarith
  have bin: "binade x = - ?b" using False by (simp add: binade_def)
  \<comment> \<open>lower bound\<close>
  from hi have "?c \<le> 2 ^ nat ?b" by simp
  then have "(of_int ?c :: rat) \<le> of_int (2 ^ nat ?b)" by (simp only: of_int_le_iff)
  moreover have "1 / x \<le> of_int ?c" by (rule le_of_int_ceiling)
  moreover have "(of_int (2 ^ nat ?b) :: rat) = 2 ^ nat ?b" by simp
  ultimately have "1 / x \<le> 2 ^ nat ?b" by linarith
  then have "1 \<le> 2 ^ nat ?b * x" using assms by (simp add: pos_divide_le_eq)
  then have "1 / 2 ^ nat ?b \<le> x" by (simp add: pos_divide_le_eq mult.commute)
  then have 1: "pow2 (binade x) \<le> x" using b1 by (simp add: bin pow2_def)
  \<comment> \<open>upper bound\<close>
  have "of_int ?c - 1 < 1 / x" using ceiling_correct [of "1 / x"] by linarith
  then have "of_int (?c - 1) < 1 / x" by simp
  moreover have "(of_int (2 ^ nat (?b - 1)) :: rat) \<le> of_int (?c - 1)" using lo by (simp only: of_int_le_iff)
  moreover have "(of_int (2 ^ nat (?b - 1)) :: rat) = 2 ^ nat (?b - 1)" by simp
  ultimately have "2 ^ nat (?b - 1) < 1 / x" by linarith
  then have "2 ^ nat (?b - 1) * x < 1" using assms by (simp add: pos_less_divide_eq)
  then have "x < 1 / 2 ^ nat (?b - 1)" by (simp add: pos_less_divide_eq mult.commute)
  moreover have "pow2 (binade x + 1) = 1 / 2 ^ nat (?b - 1)"
    using b1 by (cases "?b = 1") (simp_all add: bin pow2_def)
  ultimately have 2: "x < pow2 (binade x + 1)" by simp
  from 1 2 show ?thesis by (rule conjI)
qed

text \<open>
  Two properties of the rounding, for an argument below two to the \<open>E\<close>, with \<open>E\<close>
  at most 53, where the integers are floats: it does not cross an integer below the
  argument, and it moves the argument up by at most half the spacing.
\<close>

lemma round_half_even_ge: "of_int n \<le> x \<Longrightarrow> n \<le> round_half_even x"
proof -
  assume "of_int n \<le> x"
  then have "n \<le> \<lfloor>x\<rfloor>" by (simp add: le_floor_iff)
  then show ?thesis by (simp add: round_half_even_def)
qed

lemma round_half_even_le: "of_int (round_half_even x) \<le> x + 1 / 2"
proof -
  have f: "of_int \<lfloor>x\<rfloor> \<le> x" by (rule of_int_floor_le)
  have g: "x < of_int \<lfloor>x\<rfloor> + 1" by linarith
  have "round_half_even x = \<lfloor>x\<rfloor>
      \<or> (round_half_even x = \<lfloor>x\<rfloor> + 1 \<and> 1 / 2 \<le> x - of_int \<lfloor>x\<rfloor>)"
    by (simp add: round_half_even_def)
  then show ?thesis
  proof
    assume "round_half_even x = \<lfloor>x\<rfloor>"
    with f show ?thesis by linarith
  next
    assume a: "round_half_even x = \<lfloor>x\<rfloor> + 1 \<and> 1 / 2 \<le> x - of_int \<lfloor>x\<rfloor>"
    then have "(of_int (round_half_even x) :: rat) = of_int \<lfloor>x\<rfloor> + 1" by simp
    with a show ?thesis by linarith
  qed
qed

lemma pow2_nonpos: "i \<le> 0 \<Longrightarrow> pow2 i = 1 / 2 ^ nat (- i)"
  by (cases "i = 0") (simp_all add: pow2_def)

lemma ulp_small:
  assumes x: "0 < x" "x < 2 ^ E" and E: "1 \<le> E" "E \<le> 53"
  shows "\<exists>j. 53 \<le> j + E \<and> ulp x = 1 / 2 ^ j"
proof -
  have "\<exists>t. - 1022 \<le> t \<and> t \<le> int E - 1 \<and> ulp x = pow2 (t - 52)"
  proof (cases "1 \<le> x")
    case True
    then have m: "0 < \<lfloor>x\<rfloor>" by simp
    have "x < of_int (2 ^ E)" using x by simp
    then have "\<lfloor>x\<rfloor> < 2 ^ E" by (simp only: floor_less_iff)
    then have "bitlen \<lfloor>x\<rfloor> \<le> int E" by (simp add: bitlen_le_iff_power)
    moreover from m have "bitlen \<lfloor>x\<rfloor> \<noteq> 0" by (simp add: bitlen_eq_zero_iff)
    moreover have "0 \<le> bitlen \<lfloor>x\<rfloor>" by (rule bitlen_nonneg)
    ultimately have "0 \<le> binade x \<and> binade x \<le> int E - 1"
      using True by (simp add: binade_def)
    moreover have "\<bar>x\<bar> = x" using x by simp
    ultimately have "- 1022 \<le> binade x \<and> binade x \<le> int E - 1 \<and> ulp x = pow2 (binade x - 52)"
      by (simp add: ulp_def max_def)
    then show ?thesis by blast
  next
    case False
    have "0 \<le> bitlen (\<lceil>1 / x\<rceil> - 1)" by (rule bitlen_nonneg)
    with False have b: "binade x \<le> 0" by (simp add: binade_def)
    let ?t = "max (binade x) (- 1022)"
    from b E have "- 1022 \<le> ?t \<and> ?t \<le> int E - 1" by simp
    moreover have "ulp x = pow2 (?t - 52)" using x by (simp add: ulp_def)
    ultimately show ?thesis by blast
  qed
  then obtain t where t: "- 1022 \<le> t" "t \<le> int E - 1" and u: "ulp x = pow2 (t - 52)" by blast
  from t E have "t - 52 \<le> 0" by simp
  then have "ulp x = 1 / 2 ^ nat (52 - t)" using u by (simp add: pow2_nonpos)
  moreover from t E have "53 \<le> nat (52 - t) + E" by simp
  ultimately show ?thesis by blast
qed

lemma round64_bounds:
  assumes x: "0 \<le> x" "x < 2 ^ E" and E: "1 \<le> E" "E \<le> 53" and n: "of_int n \<le> x"
  shows "of_int n \<le> round64 x \<and> round64 x \<le> x + 1 / 2 ^ (54 - E)"
proof (cases "x = 0")
  case True
  with n show ?thesis by (simp add: round64_def)
next
  case False
  with x have pos: "0 < x" by simp
  from ulp_small [OF pos x(2) E] obtain j where j: "53 \<le> j + E" and u: "ulp x = 1 / 2 ^ j"
    by blast
  let ?r = "round_half_even (x * 2 ^ j)"
  have r: "round64 x = of_int ?r / 2 ^ j" using False by (simp add: round64_def u)
  have "of_int (n * 2 ^ j) \<le> x * 2 ^ j" using n by simp
  then have "n * 2 ^ j \<le> ?r" by (rule round_half_even_ge)
  then have "(of_int (n * 2 ^ j) :: rat) \<le> of_int ?r" by (simp only: of_int_le_iff)
  then have "(of_int n :: rat) * 2 ^ j \<le> of_int ?r" by simp
  then have lo: "of_int n \<le> round64 x" by (simp add: r pos_le_divide_eq)
  have "of_int ?r \<le> x * 2 ^ j + 1 / 2" by (rule round_half_even_le)
  then have "of_int ?r / 2 ^ j \<le> (x * 2 ^ j + 1 / 2) / 2 ^ j"
    by (simp add: divide_right_mono)
  also have "\<dots> = x + 1 / 2 ^ (j + 1)" by (simp add: add_divide_distrib)
  also have "\<dots> \<le> x + 1 / 2 ^ (54 - E)"
  proof -
    from j E have "54 - E \<le> j + 1" by simp
    then have "(2::rat) ^ (54 - E) \<le> 2 ^ (j + 1)" by (rule power_increasing) simp
    then have "1 / (2::rat) ^ (j + 1) \<le> 1 / 2 ^ (54 - E)" by (simp add: frac_le)
    then show ?thesis by simp
  qed
  finally have hi: "round64 x \<le> x + 1 / 2 ^ (54 - E)" by (simp add: r)
  from lo hi show ?thesis by (rule conjI)
qed

lemmas float_defs = view_per_year_def true_div_def round64_def ulp_def binade_def pow2_def
  round_half_even_def py_int_def

text \<open>
  The rounding at work: a view count of two to the 53 plus one is not a float, and the
  quotient by one is rounded to two to the 53, as is its sum with one.
\<close>

lemma view_per_year_rounds:
  "view_per_year 9007199254740993 1 = Inr 9007199254740992"
  by code_simp

text \<open>
  C5 as stated: the injected \<^verbatim>\<open>viewPerYear\<close> is the floor of views divided by years when
  the years are positive. It is not: for 100 views and two years the code computes 51,
  and the floor of the quotient is 50.
\<close>

theorem view_per_year_counterexample:
  "view_per_year 100 (years_since 2024 2022) = Inr 51 \<and> \<lfloor>(100 :: rat) / 2\<rfloor> = 50"
  by (simp add: float_defs years_since_def compute_bitlen)

text \<open>
  C5, amended: for a view count from 0 to below two to the 38 and a number of years from
  1 to 9999 (a difference of two calendar years is no larger), the injected
  \<^verbatim>\<open>viewPerYear\<close> is the floor of views divided by years, plus one: the code adds one
  to the quotient before it drops the fraction, and within these bounds the two roundings
  to binary64 do not change the integer part. For zero years it is 0.
\<close>

theorem view_per_year_value:
  "(0 \<le> views \<and> views < 2 ^ 38 \<and> 0 < years \<and> years < 10000 \<longrightarrow>
      view_per_year views years = Inr (views div years + 1))
   \<and> view_per_year views 0 = Inr 0"
proof -
  have main: "view_per_year views years = Inr (views div years + 1)"
    if v: "0 \<le> views" "views < 2 ^ 38" and y: "0 < years" "years < 10000"
  proof -
    define q :: rat where "q = of_int views / of_int years"
    define k where "k = views div years"
    have yr: "(0::rat) < of_int years" using y by simp
    have "\<lfloor>q\<rfloor> = k" unfolding q_def k_def by (rule floor_divide_of_int_eq)
    then have kq: "of_int k \<le> q" using of_int_floor_le [of q] by simp
    have q0: "0 \<le> q" using v y by (simp add: q_def)
    have "views = k * years + views mod years" by (simp add: k_def)
    moreover have "views mod years < years" using y by simp
    ultimately have "views \<le> k * years + (years - 1)" by linarith
    then have "(of_int views :: rat) \<le> of_int (k * years + (years - 1))"
      by (simp only: of_int_le_iff)
    then have "(of_int views :: rat) \<le> of_int k * of_int years + (of_int years - 1)"
      by simp
    then have "q \<le> (of_int k * of_int years + (of_int years - 1)) / of_int years"
      unfolding q_def using yr by (simp add: divide_right_mono)
    also have "\<dots> = of_int k + 1 - 1 / of_int years"
      using yr by (simp add: field_simps)
    finally have qk: "q \<le> of_int k + 1 - 1 / of_int years" .
    have "(of_int views :: rat) < of_int (2 ^ 38)" using v(2) by (simp only: of_int_less_iff)
    then have v38: "(of_int views :: rat) < 2 ^ 38" by simp
    have v0: "(0::rat) \<le> of_int views" using v(1) by simp
    have y1: "(1::rat) \<le> of_int years" using y by simp
    have "q \<le> of_int views / 1"
      unfolding q_def by (rule frac_le [OF v0 order_refl zero_less_one y1])
    with v38 have q38: "q < 2 ^ 38" by simp
    have small_year: "3 / 65536 < 1 / (of_int years :: rat)"
    proof -
      have "(of_int years :: rat) < 10000" using y by simp
      then have "1 / (10000 :: rat) < 1 / of_int years" using yr by (simp add: frac_less2)
      then show ?thesis by simp
    qed
    \<comment> \<open>the rounded quotient\<close>
    define r1 where "r1 = round64 q"
    from round64_bounds [OF q0 q38 _ _ kq] have r1: "of_int k \<le> r1" "r1 \<le> q + 1 / 2 ^ 16"
      by (simp_all add: r1_def)
    have k0: "0 \<le> k" using v y by (simp add: k_def pos_imp_zdiv_nonneg_iff)
    have "(0::rat) \<le> of_int k" using k0 by simp
    with r1(1) have r1pos: "0 \<le> r1" by linarith
    have "\<bar>r1\<bar> < 2 ^ 1024"
    proof -
      have "r1 < 2 ^ 38 + 1" using r1(2) q38 by simp
      also have "\<dots> \<le> (2::rat) ^ 39" by simp
      also have "\<dots> < (2::rat) ^ 1024" by (rule power_strict_increasing) simp_all
      finally show ?thesis using r1pos by simp
    qed
    then have td: "true_div views years = Inr r1"
      using y by (simp add: true_div_def r1_def q_def)
    \<comment> \<open>the rounded sum\<close>
    have y0: "0 \<le> r1 + 1" using r1pos by simp
    have y39: "r1 + 1 < 2 ^ 39" using r1(2) q38 by simp
    have ky: "of_int (k + 1) \<le> r1 + 1" using r1(1) by simp
    from round64_bounds [OF y0 y39 _ _ ky]
    have r2: "of_int (k + 1) \<le> round64 (r1 + 1)" "round64 (r1 + 1) \<le> r1 + 1 + 1 / 2 ^ 15"
      by simp_all
    have "round64 (r1 + 1) < of_int (k + 1) + 1"
      using r2(2) r1(2) qk small_year by simp
    with r2(1) have "\<lfloor>round64 (r1 + 1)\<rfloor> = k + 1" by (simp add: floor_unique)
    moreover have "0 \<le> round64 (r1 + 1)" using r2(1) \<open>(0::rat) \<le> of_int k\<close> by simp
    ultimately have "py_int (round64 (r1 + 1)) = k + 1" by (simp add: py_int_def)
    with td show ?thesis by (simp add: view_per_year_def k_def)
  qed
  have "view_per_year views 0 = Inr 0" by (simp add: view_per_year_def true_div_def)
  with main show ?thesis by blast
qed

theorem view_per_year_value_witness:
  "view_per_year 100 2 = Inr (100 div 2 + 1) \<and> view_per_year 100 0 = Inr 0"
  using view_per_year_value [of 100 2] view_per_year_value [of 100 0] by simp

text \<open>
  C10 as stated: with a size budget and no count limit the function crashes on the
  unassigned variable for every list of videos. It does not for the empty list, nor for a
  list whose first video in the order of the budget is larger than the budget: the loop
  is not entered, or takes the branch that assigns the variable, and the function returns
  the empty list.
\<close>

theorem subset_videos_json_returns_counterexample:
  "subset_videos_json [] ''views-per-year'' 0 1 = Inr []
   \<and> subset_videos_json
        [\<lparr>video_id = ''a'', viewCount = ''10'', publishedAt = ''2020-01-01T00:00:00Z'',
          viewPerYear = 3, videoSize = 2147483648\<rparr>] ''views-per-year'' 0 1 = Inr []"
  by (simp add: subset_videos_json_def order_by_def sorted_reverse_def)

lemma budget_loop_assigned:
  "ids \<noteq> [] \<Longrightarrow> \<exists>out. budget_loop videos todo subset_gb t sub (Some ids) = Inr out"
  by (induction todo arbitrary: t sub) auto

lemma sorted_reverse_Nil: "sorted_reverse k [] = []"
  by (simp add: sorted_reverse_def)

text \<open>
  C10, amended: with a size budget and no count limit, the function raises
  \<^verbatim>\<open>UnboundLocalError\<close> exactly when the list is not empty and the first video in
  descending order of views per year fits in the budget; for the empty list, and when
  that first video is larger than the budget, it returns the empty list. Without a size
  budget, or with a count limit, it always returns a list.
\<close>

theorem subset_videos_json_unassigned:
  "(subset_gb \<noteq> 0 \<longrightarrow>
      subset_videos_json videos subset_by 0 subset_gb =
        (case sorted_reverse viewPerYear (order_by subset_by videos) of
           [] \<Rightarrow> Inr []
         | v # _ \<Rightarrow>
             if videoSize v \<le> subset_gb * 1024 * 1024 * 1024
             then Inl UnboundLocalError else Inr []))
   \<and> (subset_gb = 0 \<or> subset_videos \<noteq> 0 \<longrightarrow>
        (\<exists>out. subset_videos_json videos subset_by subset_videos subset_gb = Inr out))"
proof -
  have a: "subset_videos_json videos subset_by 0 subset_gb =
        (case sorted_reverse viewPerYear (order_by subset_by videos) of
           [] \<Rightarrow> Inr []
         | v # _ \<Rightarrow>
             if videoSize v \<le> subset_gb * 1024 * 1024 * 1024
             then Inl UnboundLocalError else Inr [])" if "subset_gb \<noteq> 0"
    using that by (simp add: subset_videos_json_def split: list.splits)
  have b: "\<exists>out. subset_videos_json videos subset_by subset_videos subset_gb = Inr out"
    if "subset_gb = 0" using that by (simp add: subset_videos_json_def Let_def)
  have c: "\<exists>out. subset_videos_json videos subset_by subset_videos subset_gb = Inr out"
    if n: "subset_videos \<noteq> 0" and g: "subset_gb \<noteq> 0"
  proof (cases "order_by subset_by videos = []")
    case True
    with n g show ?thesis by (simp add: subset_videos_json_def Let_def sorted_reverse_Nil)
  next
    case False
    then have "map video_id (order_by subset_by videos) \<noteq> []" by simp
    from budget_loop_assigned [OF this] n g show ?thesis
      by (simp add: subset_videos_json_def Let_def)
  qed
  from a b c show ?thesis by blast
qed

text \<open>
  Two videos of one gigabyte each and a budget of four: the crash. The same videos with a
  count limit of one: the more viewed one is returned.
\<close>

theorem subset_videos_json_unassigned_witness:
  "subset_videos_json
     [\<lparr>video_id = ''a'', viewCount = ''10'', publishedAt = ''2020'', viewPerYear = 3,
        videoSize = 1073741824\<rparr>,
      \<lparr>video_id = ''b'', viewCount = ''20'', publishedAt = ''2021'', viewPerYear = 7,
        videoSize = 1073741824\<rparr>] ''views'' 0 4 = Inl UnboundLocalError
   \<and> (\<exists>out. subset_videos_json
     [\<lparr>video_id = ''a'', viewCount = ''10'', publishedAt = ''2020'', viewPerYear = 3,
        videoSize = 1073741824\<rparr>,
      \<lparr>video_id = ''b'', viewCount = ''20'', publishedAt = ''2021'', viewPerYear = 7,
        videoSize = 1073741824\<rparr>] ''views'' 1 4 = Inr out)"
proof -
  have h: "(4::int) \<noteq> 0" "(1::int) \<noteq> 0" by simp_all
  have s: "sorted_reverse viewPerYear (order_by ''views''
     [\<lparr>video_id = ''a'', viewCount = ''10'', publishedAt = ''2020'', viewPerYear = 3,
        videoSize = 1073741824\<rparr>,
      \<lparr>video_id = ''b'', viewCount = ''20'', publishedAt = ''2021'', viewPerYear = 7,
        videoSize = 1073741824\<rparr>]) =
     [\<lparr>video_id = ''b'', viewCount = ''20'', publishedAt = ''2021'', viewPerYear = 7,
        videoSize = 1073741824\<rparr>,
      \<lparr>video_id = ''a'', viewCount = ''10'', publishedAt = ''2020'', viewPerYear = 3,
        videoSize = 1073741824\<rparr>]"
    by (simp add: order_by_def sorted_reverse_def)
  show ?thesis
    using h s
      subset_videos_json_unassigned [where subset_gb = 4 and subset_by = "''views''"
        and subset_videos = 1 and videos =
          "[\<lparr>video_id = ''a'', viewCount = ''10'', publishedAt = ''2020'', viewPerYear = 3,
              videoSize = 1073741824\<rparr>,
            \<lparr>video_id = ''b'', viewCount = ''20'', publishedAt = ''2021'', viewPerYear = 7,
              videoSize = 1073741824\<rparr>]"]
    by simp
qed

text \<open>
  With the channel's list of playlists in the cache, an \<open>optimize_number\<close> of 1 or 2
  raises \<^verbatim>\<open>ValueError\<close>, whatever the list and the rest of the cache hold.
\<close>

lemma optimize_1_2_cached_raises:
  "cache (playlists_key channel_id) \<noteq> None \<Longrightarrow> n = 1 \<or> n = 2 \<Longrightarrow>
     get_channel_playlists_json answers channel_id (Some n) cache = Inl ValueError"
  by (auto simp: get_channel_playlists_json_def)

text \<open>
  C3: an \<open>optimize_number\<close> of 1 or 2 fails with the input error whatever the channel
  holds and whether or not its list of playlists is in the cache. The code does not do
  this: the test that raises \<^verbatim>\<open>ValueError("optimize_number must be 0 or >= 3")\<close> is
  inside the branch for a cached list. With an empty cache and the platform answering one
  page, the call with \<open>optimize_number = 1\<close> returns the fetched list; the same call
  with that list in the cache raises \<^verbatim>\<open>ValueError\<close>.
\<close>

theorem get_channel_playlists_json_uncached_skips_check:
  "map_sum id fst
     (get_channel_playlists_json
        [Page [\<lparr>ref_kind = ''youtube#playlist'', ref_etag = ''e1'',
                ref_id = ''PLaaaaaaaaaaaaaaaa''\<rparr>] None]
        ''UCxxxxxxxxxxxxxxxxxxxxxx'' (Some 1) (\<lambda>k. None))
   = Inr (PlaylistsDoc [\<lparr>ref_kind = ''youtube#playlist'', ref_etag = ''e1'',
                          ref_id = ''PLaaaaaaaaaaaaaaaa''\<rparr>])
   \<and> get_channel_playlists_json
        [Page [\<lparr>ref_kind = ''youtube#playlist'', ref_etag = ''e1'',
                ref_id = ''PLaaaaaaaaaaaaaaaa''\<rparr>] None]
        ''UCxxxxxxxxxxxxxxxxxxxxxx'' (Some 1)
        ((\<lambda>k. None)(playlists_key ''UCxxxxxxxxxxxxxxxxxxxxxx'' \<mapsto>
           PlaylistsDoc [\<lparr>ref_kind = ''youtube#playlist'', ref_etag = ''e1'',
                          ref_id = ''PLaaaaaaaaaaaaaaaa''\<rparr>]))
     = Inl ValueError"
  by (simp add: get_channel_playlists_json_def)

section \<open>Properties of merge_playlists\<close>

text \<open>
  When two keys of the cache are the same file. The keys are built from the ids by
  concatenation, so the files of one playlist are those of no other, but for an id that
  is another id followed by \<^verbatim>\<open>_videos\<close>.
\<close>

lemma videos_key_eq [simp]: "videos_key a = videos_key b \<longleftrightarrow> a = b"
  by (simp add: videos_key_def)

lemma detail_key_eq [simp]: "detail_key a = detail_key b \<longleftrightarrow> a = b"
  by (simp add: detail_key_def)

lemma detail_videos_key [simp]: "detail_key a = videos_key b \<longleftrightarrow> a = b @ ''_videos''"
  by (simp add: detail_key_def videos_key_def)

lemma videos_detail_key [simp]: "videos_key b = detail_key a \<longleftrightarrow> a = b @ ''_videos''"
  by (auto simp: detail_key_def videos_key_def)

lemma playlists_key_other [simp]:
  "playlists_key c \<noteq> videos_key a" "playlists_key c \<noteq> detail_key a"
  "videos_key a \<noteq> playlists_key c" "detail_key a \<noteq> playlists_key c"
  by (simp_all add: playlists_key_def videos_key_def detail_key_def)

lemma channel_key_other [simp]:
  "channel_key c \<noteq> videos_key a" "channel_key c \<noteq> detail_key a"
  "videos_key a \<noteq> channel_key c" "detail_key a \<noteq> channel_key c"
  "channel_key c \<noteq> playlists_key c" "playlists_key c \<noteq> channel_key c"
  by (simp_all add: channel_key_def playlists_key_def videos_key_def detail_key_def)

lemma custom_keys [simp]:
  "videos_key a = ''playlist_custom_videos'' \<longleftrightarrow> a = ''custom''"
  "videos_key a \<noteq> ''playlist_custom''"
  "detail_key a = ''playlist_custom'' \<longleftrightarrow> a = ''custom''"
  "detail_key a = ''playlist_custom_videos'' \<longleftrightarrow> a = ''custom_videos''"
  "playlists_key c \<noteq> ''playlist_custom''" "playlists_key c \<noteq> ''playlist_custom_videos''"
  "channel_key c \<noteq> ''playlist_custom''" "channel_key c \<noteq> ''playlist_custom_videos''"
  by (auto simp: channel_key_def playlists_key_def videos_key_def detail_key_def)

lemma gone_Nil [simp]: "gone c n [] = {}" by (simp add: gone_def)

lemma gone_Cons:
  "gone c n (a # ids) = (if small c n a then {videos_key a, detail_key a} else {}) \<union> gone c n ids"
  by (auto simp: gone_def)

lemma has_videos_cached:
  "has_videos c a \<Longrightarrow> c (videos_key a) = Some (VideosDoc (cached_videos c a))"
  by (auto simp: has_videos_def cached_videos_def split: option.splits doc.splits)

lemma merge_one_result:
  assumes v: "has_videos c (ref_id r)" and d: "c (detail_key (ref_id r)) \<noteq> None"
    and p: "c (playlists_key cid) = Some (PlaylistsDoc l)" and m: "r \<in> set l"
  shows "merge_one cid r vs (acc, c) =
     Inr (acc @ vs,
          c(videos_key (ref_id r) := None, detail_key (ref_id r) := None,
            playlists_key cid \<mapsto> PlaylistsDoc (remove1 r l)))"
proof -
  from v have 1: "c (videos_key (ref_id r)) \<noteq> None"
    by (simp add: has_videos_cached)
  have ne: "detail_key (ref_id r) \<noteq> videos_key (ref_id r)" by simp
  from d ne have 2: "(c(videos_key (ref_id r) := None)) (detail_key (ref_id r)) \<noteq> None"
    by simp
  show ?thesis
    using p m 1 2 by (simp add: merge_one_def os_remove_def)
qed


lemma merge_loop_result:
  assumes n3: "3 \<le> n"
  shows "distinct (map ref_id rest) \<Longrightarrow>
    \<forall>r \<in> set rest. has_videos c (ref_id r) \<and> c (detail_key (ref_id r)) \<noteq> None \<Longrightarrow>
    \<forall>a \<in> set rest. \<forall>b \<in> set rest. ref_id a \<noteq> ref_id b @ ''_videos'' \<Longrightarrow>
    c (playlists_key cid) = Some (PlaylistsDoc l) \<Longrightarrow> mset rest \<subseteq># mset l \<Longrightarrow>
    \<exists>l'. merge_loop cid n rest (acc, c) =
      Inr (acc @ concat (map (cached_videos c) (filter (small c n) (map ref_id rest))),
           (\<lambda>k. if k = playlists_key cid then Some (PlaylistsDoc l')
                else if k \<in> gone c n (map ref_id rest) then None else c k))"
proof (induction rest arbitrary: acc c l)
  case Nil
  then have "c = (\<lambda>k. if k = playlists_key cid then Some (PlaylistsDoc l)
                       else if k \<in> gone c n (map ref_id []) then None else c k)"
    by (auto simp: fun_eq_iff)
  then have "merge_loop cid n [] (acc, c) =
      Inr (acc @ concat (map (cached_videos c) (filter (small c n) (map ref_id []))),
           (\<lambda>k. if k = playlists_key cid then Some (PlaylistsDoc l)
                else if k \<in> gone c n (map ref_id []) then None else c k))"
    by simp
  then show ?case by (rule exI)
next
  case (Cons r rest)
  let ?a = "ref_id r"
  from Cons.prems have hv: "has_videos c ?a" and hd: "c (detail_key ?a) \<noteq> None" by simp_all
  from Cons.prems(5) have rl: "r \<in> set l" by (simp add: insert_subset_eq_iff)
  note vs = has_videos_cached [OF hv]
  show ?case
  proof (cases "small c n ?a")
    case False
    then have step: "merge_item cid n r (acc, c) = Inr (acc, c)"
      using n3 vs by (simp add: merge_item_def small_def)
    have sub: "mset rest \<subseteq># mset l"
      using Cons.prems(5) by (auto dest: mset_subset_eq_insertD)
    from Cons.IH [of c l acc] Cons.prems sub obtain l' where
      res: "merge_loop cid n rest (acc, c) =
        Inr (acc @ concat (map (cached_videos c) (filter (small c n) (map ref_id rest))),
           (\<lambda>k. if k = playlists_key cid then Some (PlaylistsDoc l')
                else if k \<in> gone c n (map ref_id rest) then None else c k))"
      by auto
    have g: "gone c n (map ref_id (r # rest)) = gone c n (map ref_id rest)"
      using False by (simp add: gone_Cons)
    have f: "filter (small c n) (map ref_id (r # rest)) = filter (small c n) (map ref_id rest)"
      using False by simp
    show ?thesis unfolding g f by (rule exI [of _ l']) (simp add: step res)
  next
    case True
    let ?c3 = "c(videos_key ?a := None, detail_key ?a := None,
                 playlists_key cid \<mapsto> PlaylistsDoc (remove1 r l))"
    have step: "merge_item cid n r (acc, c) = Inr (acc @ cached_videos c ?a, ?c3)"
      using n3 vs True merge_one_result [OF hv hd Cons.prems(4) rl]
      by (simp add: merge_item_def small_def)
    have ne: "ref_id t \<noteq> ?a \<and> ?a \<noteq> ref_id t @ ''_videos'' \<and> ref_id t \<noteq> ?a @ ''_videos''"
      if "t \<in> set rest" for t
    proof -
      from that have "ref_id t \<in> set (map ref_id rest)" by simp
      moreover from Cons.prems(1) have "?a \<notin> set (map ref_id rest)" by simp
      ultimately have 1: "ref_id t \<noteq> ?a" by metis
      have r: "r \<in> set (r # rest)" and t: "t \<in> set (r # rest)" using that by simp_all
      from Cons.prems(3) r t have 2: "?a \<noteq> ref_id t @ ''_videos''" by metis
      from Cons.prems(3) r t have 3: "ref_id t \<noteq> ?a @ ''_videos''" by metis
      from 1 2 3 show ?thesis by (intro conjI)
    qed
    have keep_v: "?c3 (videos_key (ref_id t)) = c (videos_key (ref_id t))" if "t \<in> set rest" for t
      using ne [OF that] by simp
    have keep_d: "?c3 (detail_key (ref_id t)) = c (detail_key (ref_id t))" if "t \<in> set rest" for t
      using ne [OF that] by simp
    have cv: "cached_videos ?c3 (ref_id t) = cached_videos c (ref_id t)" if "t \<in> set rest" for t
      using keep_v [OF that] by (simp add: cached_videos_def)
    have sm: "small ?c3 n (ref_id t) = small c n (ref_id t)" if "t \<in> set rest" for t
      using cv [OF that] by (simp add: small_def)
    have hv': "\<forall>t \<in> set rest. has_videos ?c3 (ref_id t) \<and> ?c3 (detail_key (ref_id t)) \<noteq> None"
      using keep_v keep_d Cons.prems(2) by (simp add: has_videos_def)
    have sub: "mset rest \<subseteq># mset (remove1 r l)"
      using Cons.prems(5) by (simp add: insert_subset_eq_iff)
    have pk: "?c3 (playlists_key cid) = Some (PlaylistsDoc (remove1 r l))" by simp
    from Cons.prems have d': "distinct (map ref_id rest)"
      and cl': "\<forall>a \<in> set rest. \<forall>b \<in> set rest. ref_id a \<noteq> ref_id b @ ''_videos''"
      by simp_all
    from Cons.IH [OF d' hv' cl' pk sub, of "acc @ cached_videos c ?a"] obtain l' where
      res: "merge_loop cid n rest (acc @ cached_videos c ?a, ?c3) =
        Inr ((acc @ cached_videos c ?a) @
               concat (map (cached_videos ?c3) (filter (small ?c3 n) (map ref_id rest))),
           (\<lambda>k. if k = playlists_key cid then Some (PlaylistsDoc l')
                else if k \<in> gone ?c3 n (map ref_id rest) then None else ?c3 k))"
      by blast
    have f: "filter (small ?c3 n) (map ref_id rest) = filter (small c n) (map ref_id rest)"
      using sm by (induction rest) auto
    have g: "gone ?c3 n (map ref_id rest) = gone c n (map ref_id rest)"
      by (simp add: gone_def f)
    have m: "map (cached_videos ?c3) (filter (small c n) (map ref_id rest))
           = map (cached_videos c) (filter (small c n) (map ref_id rest))"
      using cv by (auto simp: map_eq_conv)
    have fin: "(\<lambda>k. if k = playlists_key cid then Some (PlaylistsDoc l')
                else if k \<in> gone c n (map ref_id rest) then None else ?c3 k)
          = (\<lambda>k. if k = playlists_key cid then Some (PlaylistsDoc l')
                else if k \<in> gone c n (map ref_id (r # rest)) then None else c k)"
      using True by (auto simp: gone_Cons fun_eq_iff)
    have f2: "acc @ concat (map (cached_videos c) (filter (small c n) (map ref_id (r # rest))))
        = (acc @ cached_videos c ?a) @
            concat (map (cached_videos c) (filter (small c n) (map ref_id rest)))"
      using True by simp
    have "merge_loop cid n (r # rest) (acc, c) =
        merge_loop cid n rest (acc @ cached_videos c ?a, ?c3)"
      by (simp add: step)
    also note res
    finally show ?thesis
      unfolding f g m fin f2 [symmetric] by (rule exI [of _ l'])
  qed
qed

lemma dedup_loop_first_by_id:
  "dedup_loop xs seen acc = acc @ first_by_id (filter (\<lambda>y. item_video_id y \<notin> set seen) xs)"
proof (induction xs arbitrary: seen acc)
  case Nil
  then show ?case by simp
next
  case (Cons x xs)
  show ?case
  proof (cases "item_video_id x \<in> set seen")
    case True
    then show ?thesis by (simp add: Cons.IH)
  next
    case False
    have "filter (\<lambda>y. item_video_id y \<noteq> item_video_id x)
            (filter (\<lambda>y. item_video_id y \<notin> set seen) xs)
        = filter (\<lambda>y. item_video_id y \<notin> set (seen @ [item_video_id x])) xs"
      by (auto intro: filter_cong)
    with False show ?thesis by (simp add: Cons.IH)
  qed
qed

lemma set_first_by_id: "set (first_by_id xs) \<subseteq> set xs"
  by (induction xs rule: first_by_id.induct) auto

lemma ids_first_by_id: "set (map item_video_id (first_by_id xs)) = set (map item_video_id xs)"
  by (induction xs rule: first_by_id.induct) auto

lemma distinct_first_by_id: "distinct (map item_video_id (first_by_id xs))"
proof (induction xs rule: first_by_id.induct)
  case 1
  then show ?case by simp
next
  case (2 x xs)
  have "item_video_id x \<notin> item_video_id ` set (first_by_id (filter (\<lambda>y. item_video_id y \<noteq> item_video_id x) xs))"
    using set_first_by_id [of "filter (\<lambda>y. item_video_id y \<noteq> item_video_id x) xs"] by auto
  with "2" show ?case by simp
qed

lemma first_by_id_first:
  "x \<in> set (first_by_id xs) \<Longrightarrow> find (\<lambda>y. item_video_id y = item_video_id x) xs = Some x"
proof (induction xs rule: first_by_id.induct)
  case 1
  then show ?case by simp
next
  case (2 z xs)
  show ?case
  proof (cases "x = z")
    case True
    then show ?thesis by simp
  next
    case False
    with "2.prems" have m: "x \<in> set (first_by_id (filter (\<lambda>y. item_video_id y \<noteq> item_video_id z) xs))"
      by simp
    with set_first_by_id have "x \<in> set (filter (\<lambda>y. item_video_id y \<noteq> item_video_id z) xs)"
      by blast
    then have ne: "item_video_id z \<noteq> item_video_id x" by auto
    have "find (\<lambda>y. item_video_id y = item_video_id x) (filter (\<lambda>y. item_video_id y \<noteq> item_video_id z) xs)
        = find (\<lambda>y. item_video_id y = item_video_id x) xs"
      using ne by (induction xs) auto
    with "2.IH" [OF m] ne show ?thesis by simp
  qed
qed

lemma nth_renumber:
  "i < length xs \<Longrightarrow> renumber xs ! i = (xs ! i)\<lparr>item_position := int i\<rparr>"
  by (simp add: renumber_def nth_enumerate_eq)

lemma positions_renumber: "map item_position (renumber xs) = map int [0..<length xs]"
  by (rule nth_equalityI) (simp_all add: renumber_def nth_enumerate_eq)

lemma ids_renumber: "map item_video_id (renumber xs) = map item_video_id xs"
  by (rule nth_equalityI) (simp_all add: renumber_def nth_enumerate_eq)

lemma length_renumber: "length (renumber xs) = length xs"
  by (simp add: renumber_def)

lemma gone_iff:
  "x \<in> gone c n ids \<longleftrightarrow> (\<exists>b \<in> set ids. small c n b \<and> (x = videos_key b \<or> x = detail_key b))"
  by (auto simp: gone_def)

lemma merge_playlists_result:
  assumes n3: "3 \<le> n"
    and ch: "cache (channel_key cid) = Some (ChannelDoc ch)"
    and pl: "cache (playlists_key cid) = Some (PlaylistsDoc items)"
    and ids: "ids = map ref_id items @ [channel_uploads ch]"
    and dist: "distinct ids"
    and files: "\<forall>a \<in> set ids. has_videos cache a \<and> cache (detail_key a) \<noteq> None"
    and clash: "\<forall>a \<in> set ids. \<forall>b \<in> set ids. a \<noteq> b @ ''_videos''"
    and custom: "''custom'' \<notin> set ids" "''custom_videos'' \<notin> set ids"
  shows "\<exists>cache'. merge_playlists cid items n cache = Inr (RefDoc custom_ref, cache')
     \<and> cache' ''playlist_custom_videos'' =
         Some (VideosDoc (renumber (first_by_id
           (concat (map (cached_videos cache) (filter (small cache n) ids))))))
     \<and> (\<forall>a \<in> set ids. small cache n a \<longrightarrow>
           cache' (videos_key a) = None \<and> cache' (detail_key a) = None)
     \<and> (\<forall>a \<in> set ids. \<not> small cache n a \<longrightarrow>
           cache' (videos_key a) = cache (videos_key a)
           \<and> cache' (detail_key a) = cache (detail_key a))"
proof -
  let ?up = "channel_uploads ch"
  let ?pk = "playlists_key cid"
  let ?iids = "map ref_id items"
  from ids have mem: "\<And>r. r \<in> set items \<Longrightarrow> ref_id r \<in> set ids" and upm: "?up \<in> set ids"
    by simp_all
  from ids dist have d1: "distinct ?iids" and upn: "?up \<notin> set ?iids" by simp_all
  have f1: "\<forall>r \<in> set items. has_videos cache (ref_id r) \<and> cache (detail_key (ref_id r)) \<noteq> None"
    using files mem by metis
  have c1: "\<forall>a \<in> set items. \<forall>b \<in> set items. ref_id a \<noteq> ref_id b @ ''_videos''"
    using clash mem by metis
  from merge_loop_result [OF n3 d1 f1 c1 pl subset_mset.order_refl, of "[]"]
  obtain l' where loop: "merge_loop cid n items ([], cache) =
      Inr (concat (map (cached_videos cache) (filter (small cache n) ?iids)),
           (\<lambda>k. if k = ?pk then Some (PlaylistsDoc l')
                else if k \<in> gone cache n ?iids then None else cache k))"
    by auto
  define m1 where "m1 = concat (map (cached_videos cache) (filter (small cache n) ?iids))"
  define k1 where "k1 = (\<lambda>k. if k = ?pk then Some (PlaylistsDoc l')
                else if k \<in> gone cache n ?iids then None else cache k)"
  have loop': "merge_loop cid n items ([], cache) = Inr (m1, k1)"
    by (simp add: loop m1_def k1_def)
  \<comment> \<open>the keys of the uploads playlist and of the channel are untouched by the loop\<close>
  have up_clash: "?up \<noteq> b @ ''_videos'' \<and> b \<noteq> ?up @ ''_videos'' \<and> b \<noteq> ?up" if "b \<in> set ?iids" for b
  proof -
    from that ids have b: "b \<in> set ids" by simp
    from clash upm b have "?up \<noteq> b @ ''_videos''" by metis
    moreover from clash upm b have "b \<noteq> ?up @ ''_videos''" by metis
    moreover from that upn have "b \<noteq> ?up" by metis
    ultimately show ?thesis by (intro conjI)
  qed
  have vk_up: "videos_key ?up \<notin> gone cache n ?iids"
    using up_clash by (auto simp: gone_iff)
  have dk_up: "detail_key ?up \<notin> gone cache n ?iids"
    using up_clash by (auto simp: gone_iff)
  have k1_ch: "k1 (channel_key cid) = Some (ChannelDoc ch)"
    by (simp add: k1_def ch gone_iff)
  have k1_vk_up: "k1 (videos_key ?up) = Some (VideosDoc (cached_videos cache ?up))"
    using vk_up files upm by (simp add: k1_def has_videos_cached)
  have k1_dk_up: "k1 (detail_key ?up) \<noteq> None"
    using dk_up files upm by (simp add: k1_def)
  have k1_pk: "k1 ?pk = Some (PlaylistsDoc l')" by (simp add: k1_def)
  \<comment> \<open>what the loop did to the files of the listed playlists\<close>
  have k1_items: "k1 (videos_key a) = (if small cache n a then None else cache (videos_key a))
      \<and> k1 (detail_key a) = (if small cache n a then None else cache (detail_key a))"
    if a: "a \<in> set ?iids" for a
  proof -
    have nc: "b \<noteq> a @ ''_videos'' \<and> a \<noteq> b @ ''_videos''" if "b \<in> set ?iids" for b
    proof -
      from a that ids have "a \<in> set ids" "b \<in> set ids" by simp_all
      with clash show ?thesis by metis
    qed
    have "videos_key a \<in> gone cache n ?iids \<longleftrightarrow> small cache n a"
      using a nc by (auto simp: gone_iff)
    moreover have "detail_key a \<in> gone cache n ?iids \<longleftrightarrow> small cache n a"
      using a nc by (auto simp: gone_iff)
    ultimately show ?thesis by (simp add: k1_def)
  qed
  \<comment> \<open>the uploads playlist\<close>
  have "\<exists>m2 k2. merge_uploads cid n ?up (m1, k1) = Inr (m2, k2)
      \<and> m2 = concat (map (cached_videos cache) (filter (small cache n) ids))
      \<and> (\<forall>a \<in> set ids.
            k2 (videos_key a) = (if small cache n a then None else cache (videos_key a))
          \<and> k2 (detail_key a) = (if small cache n a then None else cache (detail_key a)))"
  proof (cases "small cache n ?up")
    case False
    have "merge_uploads cid n ?up (m1, k1) = Inr (m1, k1)"
      using n3 False k1_vk_up by (simp add: merge_uploads_def small_def)
    moreover have "m1 = concat (map (cached_videos cache) (filter (small cache n) ids))"
      using False by (simp add: m1_def ids)
    moreover have "k1 (videos_key a) = (if small cache n a then None else cache (videos_key a))
          \<and> k1 (detail_key a) = (if small cache n a then None else cache (detail_key a))"
      if "a \<in> set ids" for a
    proof (cases "a = ?up")
      case True
      with False vk_up dk_up show ?thesis by (simp add: k1_def)
    next
      case neq: False
      with that ids have "a \<in> set ?iids" by simp
      then show ?thesis by (rule k1_items)
    qed
    ultimately show ?thesis by blast
  next
    case True
    define k2 where "k2 = k1(videos_key ?up := None, detail_key ?up := None,
        ?pk \<mapsto> PlaylistsDoc (remove_first_id ?up l'))"
    have r1: "os_remove k1 (videos_key ?up) = Inr (k1(videos_key ?up := None))"
      using k1_vk_up by (simp add: os_remove_def)
    have r2: "os_remove (k1(videos_key ?up := None)) (detail_key ?up)
        = Inr (k1(videos_key ?up := None, detail_key ?up := None))"
      using k1_dk_up by (simp add: os_remove_def)
    have r3: "(k1(videos_key ?up := None, detail_key ?up := None)) ?pk = Some (PlaylistsDoc l')"
      using k1_pk by simp
    have "merge_uploads cid n ?up (m1, k1) = Inr (m1 @ cached_videos cache ?up, k2)"
      using n3 True k1_vk_up by (simp add: merge_uploads_def small_def r1 r2 r3 k1_pk k2_def)
    moreover have "m1 @ cached_videos cache ?up
        = concat (map (cached_videos cache) (filter (small cache n) ids))"
      using True by (simp add: m1_def ids)
    moreover have "k2 (videos_key a) = (if small cache n a then None else cache (videos_key a))
          \<and> k2 (detail_key a) = (if small cache n a then None else cache (detail_key a))"
      if "a \<in> set ids" for a
    proof (cases "a = ?up")
      case eq: True
      with True show ?thesis by (simp add: k2_def)
    next
      case neq: False
      with that ids have a: "a \<in> set ?iids" by simp
      from up_clash [OF a] have "k2 (videos_key a) = k1 (videos_key a)"
        and "k2 (detail_key a) = k1 (detail_key a)"
        by (simp_all add: k2_def)
      with k1_items [OF a] show ?thesis by simp
    qed
    ultimately show ?thesis by blast
  qed
  then obtain m2 k2 where up: "merge_uploads cid n ?up (m1, k1) = Inr (m2, k2)"
    and m2: "m2 = concat (map (cached_videos cache) (filter (small cache n) ids))"
    and k2: "\<forall>a \<in> set ids.
            k2 (videos_key a) = (if small cache n a then None else cache (videos_key a))
          \<and> k2 (detail_key a) = (if small cache n a then None else cache (detail_key a))"
    by blast
  define final where "final = k2
      (?pk \<mapsto> RefDoc custom_ref,
       ''playlist_custom'' \<mapsto> DetailDoc (custom_detail cid n ch),
       ''playlist_custom_videos'' \<mapsto> VideosDoc (renumber (dedup_loop m2 [] [])))"
  have res: "merge_playlists cid items n cache = Inr (RefDoc custom_ref, final)"
    by (simp add: merge_playlists_def loop' k1_ch up final_def)
  have out: "final ''playlist_custom_videos'' =
         Some (VideosDoc (renumber (first_by_id
           (concat (map (cached_videos cache) (filter (small cache n) ids))))))"
    by (simp add: final_def dedup_loop_first_by_id m2)
  have keys: "final (videos_key a) = k2 (videos_key a) \<and> final (detail_key a) = k2 (detail_key a)"
    if "a \<in> set ids" for a
  proof -
    from that custom have "a \<noteq> ''custom''" "a \<noteq> ''custom_videos''" by metis+
    then show ?thesis by (simp add: final_def)
  qed
  have small_gone: "\<forall>a \<in> set ids. small cache n a \<longrightarrow>
           final (videos_key a) = None \<and> final (detail_key a) = None"
    using keys k2 by simp
  have large_kept: "\<forall>a \<in> set ids. \<not> small cache n a \<longrightarrow>
           final (videos_key a) = cache (videos_key a)
           \<and> final (detail_key a) = cache (detail_key a)"
    using keys k2 by simp
  from res out small_gone large_kept show ?thesis by blast
qed

text \<open>
  C6: a merge with a threshold of at least three. The cache holds the channel, its list of
  playlists, and for each listed playlist and for the uploads playlist the list of its
  items and its details; the ids of these playlists are pairwise different, none is
  another one followed by \<^verbatim>\<open>_videos\<close>, and none is \<^verbatim>\<open>custom\<close> or
  \<^verbatim>\<open>custom_videos\<close>. Then the merge returns, and exactly the playlists with fewer
  cached items than the threshold are merged, the uploads playlist among them only if it
  is itself below the threshold: the list saved under \<^verbatim>\<open>playlist_custom_videos\<close> is made
  of the items of these playlists, in the order of the channel's list with the uploads
  last, with only the first item of each video id kept and the positions renumbered from
  zero; the two files of each merged playlist are deleted, and those of every other
  playlist (one with exactly as many items as the threshold included) are left as they
  were. (The file of the channel's list itself is overwritten with the one synthetic
  entry.)
\<close>

theorem merge_playlists_threshold:
  assumes n3: "3 \<le> n"
    and ch: "cache (channel_key cid) = Some (ChannelDoc ch)"
    and pl: "cache (playlists_key cid) = Some (PlaylistsDoc items)"
    and ids: "ids = map ref_id items @ [channel_uploads ch]"
    and dist: "distinct ids"
    and files: "\<forall>a \<in> set ids. has_videos cache a \<and> cache (detail_key a) \<noteq> None"
    and clash: "\<forall>a \<in> set ids. \<forall>b \<in> set ids. a \<noteq> b @ ''_videos''"
    and custom: "''custom'' \<notin> set ids" "''custom_videos'' \<notin> set ids"
    and merged: "merged = concat (map (cached_videos cache) (filter (small cache n) ids))"
  shows "\<exists>cache' out. merge_playlists cid items n cache = Inr (RefDoc custom_ref, cache')
     \<and> cache' ''playlist_custom_videos'' = Some (VideosDoc out)
     \<and> out = renumber (first_by_id merged)
     \<and> map item_position out = map int [0..<length out]
     \<and> distinct (map item_video_id out)
     \<and> set (map item_video_id out) = set (map item_video_id merged)
     \<and> (\<forall>x \<in> set (first_by_id merged).
           find (\<lambda>y. item_video_id y = item_video_id x) merged = Some x)
     \<and> (\<forall>a \<in> set ids. small cache n a \<longrightarrow>
           cache' (videos_key a) = None \<and> cache' (detail_key a) = None)
     \<and> (\<forall>a \<in> set ids. \<not> small cache n a \<longrightarrow>
           cache' (videos_key a) = cache (videos_key a)
           \<and> cache' (detail_key a) = cache (detail_key a))"
proof -
  from merge_playlists_result [OF n3 ch pl ids dist files clash custom]
  obtain cache' where res: "merge_playlists cid items n cache = Inr (RefDoc custom_ref, cache')"
    and out: "cache' ''playlist_custom_videos'' = Some (VideosDoc (renumber (first_by_id merged)))"
    and sm: "\<forall>a \<in> set ids. small cache n a \<longrightarrow>
           cache' (videos_key a) = None \<and> cache' (detail_key a) = None"
    and lg: "\<forall>a \<in> set ids. \<not> small cache n a \<longrightarrow>
           cache' (videos_key a) = cache (videos_key a)
           \<and> cache' (detail_key a) = cache (detail_key a)"
    unfolding merged by blast
  let ?out = "renumber (first_by_id merged)"
  have p: "map item_position ?out = map int [0..<length ?out]"
    by (simp add: positions_renumber length_renumber)
  have d: "distinct (map item_video_id ?out)"
    by (simp add: ids_renumber distinct_first_by_id)
  have s: "set (map item_video_id ?out) = set (map item_video_id merged)"
    by (simp only: ids_renumber ids_first_by_id)
  have f: "\<forall>x \<in> set (first_by_id merged).
           find (\<lambda>y. item_video_id y = item_video_id x) merged = Some x"
    using first_by_id_first by blast
  from res out p d s f sm lg show ?thesis by blast
qed

text \<open>
  The example: with a threshold of 5 the playlist of 2 items and the uploads playlist of
  3 items are merged, those of 5 and 10 items are not.
\<close>

lemma example_lookups:
  "example_cache (channel_key ''UCx'') = Some (ChannelDoc \<lparr>channel_title = ''X'', channel_uploads = ''UUx''\<rparr>)"
  "example_cache (playlists_key ''UCx'') = Some (PlaylistsDoc example_refs)"
  "example_cache (videos_key ''PLa'') = Some (VideosDoc (items_of [''v1'', ''v2'']))"
  "example_cache (videos_key ''PLb'') = Some (VideosDoc (items_of [''v3'', ''v4'', ''v5'', ''v6'', ''v7'']))"
  "example_cache (videos_key ''PLc'') = Some (VideosDoc (items_of [''w0'', ''w1'', ''w2'', ''w3'', ''w4'', ''w5'', ''w6'', ''w7'', ''w8'', ''w9'']))"
  "example_cache (videos_key ''UUx'') = Some (VideosDoc (items_of [''v2'', ''v9'', ''v1'']))"
  "example_cache (detail_key ''PLa'') = Some (DetailDoc (example_detail ''PLa''))"
  "example_cache (detail_key ''PLb'') = Some (DetailDoc (example_detail ''PLb''))"
  "example_cache (detail_key ''PLc'') = Some (DetailDoc (example_detail ''PLc''))"
  "example_cache (detail_key ''UUx'') = Some (DetailDoc (example_detail ''UUx''))"
  by (simp_all add: example_cache_def channel_key_def playlists_key_def videos_key_def detail_key_def)

lemma example_small:
  "small example_cache 5 ''PLa''" "\<not> small example_cache 5 ''PLb''"
  "\<not> small example_cache 5 ''PLc''" "small example_cache 5 ''UUx''"
  by (simp_all add: small_def cached_videos_def example_lookups items_of_def)

lemma example_merged:
  "renumber (first_by_id (concat (map (cached_videos example_cache)
       (filter (small example_cache 5) [''PLa'', ''PLb'', ''PLc'', ''UUx'']))))
   = [\<lparr>item_video_id = ''v1'', item_title = ''v1'', item_position = 0\<rparr>,
      \<lparr>item_video_id = ''v2'', item_title = ''v2'', item_position = 1\<rparr>,
      \<lparr>item_video_id = ''v9'', item_title = ''v9'', item_position = 2\<rparr>]"
  by (simp add: example_small cached_videos_def example_lookups items_of_def renumber_def
      enumerate_eq_zip upt_rec)

theorem merge_playlists_threshold_witness:
  "\<exists>cache'. merge_playlists ''UCx'' example_refs 5 example_cache = Inr (RefDoc custom_ref, cache')
     \<and> cache' ''playlist_custom_videos'' = Some (VideosDoc
          [\<lparr>item_video_id = ''v1'', item_title = ''v1'', item_position = 0\<rparr>,
           \<lparr>item_video_id = ''v2'', item_title = ''v2'', item_position = 1\<rparr>,
           \<lparr>item_video_id = ''v9'', item_title = ''v9'', item_position = 2\<rparr>])
     \<and> cache' (videos_key ''PLa'') = None \<and> cache' (detail_key ''PLa'') = None
     \<and> cache' (videos_key ''UUx'') = None \<and> cache' (detail_key ''UUx'') = None
     \<and> cache' (videos_key ''PLb'') = example_cache (videos_key ''PLb'')
     \<and> cache' (detail_key ''PLb'') = example_cache (detail_key ''PLb'')
     \<and> cache' (videos_key ''PLc'') = example_cache (videos_key ''PLc'')
     \<and> cache' (detail_key ''PLc'') = example_cache (detail_key ''PLc'')"
proof -
  let ?ids = "[''PLa'', ''PLb'', ''PLc'', ''UUx'']"
  let ?ch = "\<lparr>channel_title = ''X'', channel_uploads = ''UUx''\<rparr>"
  let ?merged = "concat (map (cached_videos example_cache) (filter (small example_cache 5) ?ids))"
  have n3: "(3::int) \<le> 5" by simp
  have ids: "?ids = map ref_id example_refs @ [channel_uploads ?ch]"
    by (simp add: example_refs_def)
  have dist: "distinct ?ids" by simp
  have files: "\<forall>a \<in> set ?ids. has_videos example_cache a \<and> example_cache (detail_key a) \<noteq> None"
    by (simp add: has_videos_def example_lookups)
  have clash: "\<forall>a \<in> set ?ids. \<forall>b \<in> set ?ids. a \<noteq> b @ ''_videos''" by simp
  have custom: "''custom'' \<notin> set ?ids" "''custom_videos'' \<notin> set ?ids" by simp_all
  from merge_playlists_threshold [OF n3 example_lookups(1) example_lookups(2) ids dist files
      clash custom refl]
  obtain cache' out where
    res: "merge_playlists ''UCx'' example_refs 5 example_cache = Inr (RefDoc custom_ref, cache')"
    and out: "cache' ''playlist_custom_videos'' = Some (VideosDoc out)"
      "out = renumber (first_by_id ?merged)"
    and sm: "\<forall>a \<in> set ?ids. small example_cache 5 a \<longrightarrow>
           cache' (videos_key a) = None \<and> cache' (detail_key a) = None"
    and lg: "\<forall>a \<in> set ?ids. \<not> small example_cache 5 a \<longrightarrow>
           cache' (videos_key a) = example_cache (videos_key a)
           \<and> cache' (detail_key a) = example_cache (detail_key a)"
    by blast
  from out have o: "cache' ''playlist_custom_videos'' = Some (VideosDoc
          [\<lparr>item_video_id = ''v1'', item_title = ''v1'', item_position = 0\<rparr>,
           \<lparr>item_video_id = ''v2'', item_title = ''v2'', item_position = 1\<rparr>,
           \<lparr>item_video_id = ''v9'', item_title = ''v9'', item_position = 2\<rparr>])"
    by (simp only: example_merged)
  from sm example_small have a: "cache' (videos_key ''PLa'') = None \<and> cache' (detail_key ''PLa'') = None"
    and u: "cache' (videos_key ''UUx'') = None \<and> cache' (detail_key ''UUx'') = None"
    by simp_all
  from lg example_small have b: "cache' (videos_key ''PLb'') = example_cache (videos_key ''PLb'')
      \<and> cache' (detail_key ''PLb'') = example_cache (detail_key ''PLb'')"
    and c: "cache' (videos_key ''PLc'') = example_cache (videos_key ''PLc'')
      \<and> cache' (detail_key ''PLc'') = example_cache (detail_key ''PLc'')"
    by simp_all
  from res o a u b c show ?thesis by blast
qed

end
